theory Spec2Isabelle
  imports Main "HOL-Library.Sublist"
begin

section \<open>Python strings as lists of code points\<close>

text \<open>
  The parser in \<^verbatim>\<open>src/services/case_parser.py\<close> works on Python \<^verbatim>\<open>str\<close> values, which
  are sequences of Unicode code points (the tables hold Cyrillic keywords and the
  patterns name en and em dashes). A string is therefore a list of code points, each an
  \<^typ>\<open>int\<close> as \<^verbatim>\<open>ord\<close> returns it. ASCII literals are written through \<open>of_ascii\<close>.
\<close>

type_synonym ustr = "int list"

definition of_ascii :: "string \<Rightarrow> ustr" where
  "of_ascii s = map of_char s"

text \<open>
  The only exception the function can meet is an out-of-range subscript; it is a value
  of the model, so that each subscript of the source is a branch that may fail.
\<close>

datatype error = IndexError

text \<open>\<^verbatim>\<open>xs[i]\<close>: a negative subscript counts from the end of the list.\<close>

definition py_index :: "'a list \<Rightarrow> int \<Rightarrow> error + 'a" where
  "py_index xs i =
     (if 0 \<le> i \<and> i < int (length xs) then Inr (xs ! nat i)
      else if i < 0 \<and> - int (length xs) \<le> i then Inr (xs ! nat (int (length xs) + i))
      else Inl IndexError)"

definition bind_res :: "error + 'a \<Rightarrow> ('a \<Rightarrow> error + 'b) \<Rightarrow> error + 'b" where
  "bind_res m f = (case m of Inl e \<Rightarrow> Inl e | Inr v \<Rightarrow> f v)"

text \<open>\<^verbatim>\<open>s[a:b]\<close> for non-negative bounds.\<close>

definition py_slice :: "'a list \<Rightarrow> nat \<Rightarrow> nat \<Rightarrow> 'a list" where
  "py_slice s a b = take (b - a) (drop a s)"

fun py_enumerate :: "int \<Rightarrow> 'a list \<Rightarrow> (int \<times> 'a) list" where
  "py_enumerate i [] = []"
| "py_enumerate i (x # xs) = (i, x) # py_enumerate (i + 1) xs"

subsection \<open>Character classes\<close>

text \<open>
  \<^verbatim>\<open>str.strip()\<close>, \<^verbatim>\<open>str.split()\<close> and the pattern class \<^verbatim>\<open>\s\<close> of a \<^verbatim>\<open>str\<close> pattern all
  use the same whitespace test of the interpreter (\<^verbatim>\<open>str.isspace\<close> on one code point).
\<close>

definition is_space :: "int \<Rightarrow> bool" where
  "is_space c \<longleftrightarrow>
     (9 \<le> c \<and> c \<le> 13) \<or> (28 \<le> c \<and> c \<le> 32) \<or> c = 133 \<or> c = 160 \<or> c = 5760 \<or>
     (8192 \<le> c \<and> c \<le> 8202) \<or> c = 8232 \<or> c = 8233 \<or> c = 8239 \<or> c = 8287 \<or> c = 12288"

text \<open>
  \<^verbatim>\<open>\d\<close> of a \<^verbatim>\<open>str\<close> pattern is the Unicode category Nd (decimal digits of every
  script); the ranges are those of the Unicode 14 tables of CPython 3.11.
\<close>

definition nd_ranges :: "(int \<times> int) list" where
  "nd_ranges =
    [(48, 57), (1632, 1641), (1776, 1785), (1984, 1993), (2406, 2415), (2534, 2543),
     (2662, 2671), (2790, 2799), (2918, 2927), (3046, 3055), (3174, 3183), (3302, 3311),
     (3430, 3439), (3558, 3567), (3664, 3673), (3792, 3801), (3872, 3881), (4160, 4169),
     (4240, 4249), (6112, 6121), (6160, 6169), (6470, 6479), (6608, 6617), (6784, 6793),
     (6800, 6809), (6992, 7001), (7088, 7097), (7232, 7241), (7248, 7257), (42528, 42537),
     (43216, 43225), (43264, 43273), (43472, 43481), (43504, 43513), (43600, 43609),
     (44016, 44025), (65296, 65305), (66720, 66729), (68912, 68921), (69734, 69743),
     (69872, 69881), (69942, 69951), (70096, 70105), (70384, 70393), (70736, 70745),
     (70864, 70873), (71248, 71257), (71360, 71369), (71472, 71481), (71904, 71913),
     (72016, 72025), (72784, 72793), (73040, 73049), (73120, 73129), (92768, 92777),
     (92864, 92873), (93008, 93017), (120782, 120831), (123200, 123209), (123632, 123641),
     (125264, 125273), (130032, 130041)]"

definition is_digit :: "int \<Rightarrow> bool" where
  "is_digit c = list_ex (\<lambda>(lo, hi). lo \<le> c \<and> c \<le> hi) nd_ranges"

text \<open>The class \<^verbatim>\<open>[\U0001F300-\U0001FAFF\U00002500-\U00002BEF]\<close> of \<^verbatim>\<open>EMOJI_RE\<close>.\<close>

definition is_emoji :: "int \<Rightarrow> bool" where
  "is_emoji c \<longleftrightarrow> (127744 \<le> c \<and> c \<le> 129791) \<or> (9472 \<le> c \<and> c \<le> 11247)"

text \<open>The class \<^verbatim>\<open>[0-9a-zA-Z\<close>U+0410\<^verbatim>\<open>-\<close>U+042F U+0430\<^verbatim>\<open>-\<close>U+044F\<^verbatim>\<open>]\<close> kept by \<^verbatim>\<open>_normalize_header_text\<close>.\<close>

definition is_header_alnum :: "int \<Rightarrow> bool" where
  "is_header_alnum c \<longleftrightarrow>
     (48 \<le> c \<and> c \<le> 57) \<or> (97 \<le> c \<and> c \<le> 122) \<or> (65 \<le> c \<and> c \<le> 90) \<or>
     (1040 \<le> c \<and> c \<le> 1071) \<or> (1072 \<le> c \<and> c \<le> 1103)"

text \<open>Line boundaries of \<^verbatim>\<open>str.splitlines\<close> other than the pair CR LF.\<close>

definition is_linebreak :: "int \<Rightarrow> bool" where
  "is_linebreak c \<longleftrightarrow>
     c = 10 \<or> c = 11 \<or> c = 12 \<or> c = 13 \<or> c = 28 \<or> c = 29 \<or> c = 30 \<or> c = 133 \<or>
     c = 8232 \<or> c = 8233"

subsection \<open>String methods\<close>

definition startswith :: "ustr \<Rightarrow> ustr \<Rightarrow> bool" where
  "startswith s p \<longleftrightarrow> take (length p) s = p"

text \<open>\<^verbatim>\<open>sub in s\<close>.\<close>

fun contains :: "ustr \<Rightarrow> ustr \<Rightarrow> bool" where
  "contains sub [] \<longleftrightarrow> sub = []"
| "contains sub (c # cs) \<longleftrightarrow> startswith (c # cs) sub \<or> contains sub cs"

definition py_strip :: "ustr \<Rightarrow> ustr" where
  "py_strip s = rev (dropWhile is_space (rev (dropWhile is_space s)))"

text \<open>\<^verbatim>\<open>s.strip(chars)\<close>.\<close>

definition strip_chars :: "ustr \<Rightarrow> ustr \<Rightarrow> ustr" where
  "strip_chars chars s =
     rev (dropWhile (\<lambda>c. c \<in> set chars) (rev (dropWhile (\<lambda>c. c \<in> set chars) s)))"

text \<open>\<^verbatim>\<open>s.split()\<close>: the maximal runs of non-whitespace.\<close>

fun split_ws :: "ustr \<Rightarrow> ustr \<Rightarrow> ustr list" where
  "split_ws cur [] = (if cur = [] then [] else [cur])"
| "split_ws cur (c # cs) =
     (if is_space c then (if cur = [] then split_ws [] cs else cur # split_ws [] cs)
      else split_ws (cur @ [c]) cs)"

definition py_split :: "ustr \<Rightarrow> ustr list" where
  "py_split s = split_ws [] s"

text \<open>\<^verbatim>\<open>s.split(sep)\<close> for a one-character separator.\<close>

fun split_on :: "int \<Rightarrow> ustr \<Rightarrow> ustr \<Rightarrow> ustr list" where
  "split_on sep cur [] = [cur]"
| "split_on sep cur (c # cs) =
     (if c = sep then cur # split_on sep [] cs else split_on sep (cur @ [c]) cs)"

definition py_split_sep :: "int \<Rightarrow> ustr \<Rightarrow> ustr list" where
  "py_split_sep sep s = split_on sep [] s"

fun py_join :: "ustr \<Rightarrow> ustr list \<Rightarrow> ustr" where
  "py_join sep [] = []"
| "py_join sep [x] = x"
| "py_join sep (x # y # ys) = x @ sep @ py_join sep (y # ys)"

text \<open>
  \<^verbatim>\<open>s.replace(old, new)\<close>, leftmost and non-overlapping. Every call of the source has a
  non-empty \<open>old\<close>; for an empty one the model leaves the string as it is.
\<close>

function py_replace :: "ustr \<Rightarrow> ustr \<Rightarrow> ustr \<Rightarrow> ustr" where
  "py_replace old new [] = []"
| "py_replace old new (c # cs) =
     (if old \<noteq> [] \<and> startswith (c # cs) old
      then new @ py_replace old new (drop (length old) (c # cs))
      else c # py_replace old new cs)"
  by pat_completeness auto
termination
  by (relation "measure (\<lambda>(old, new, s). length s)") (auto simp: Suc_le_eq)

fun splitlines_from :: "ustr \<Rightarrow> ustr \<Rightarrow> ustr list" where
  "splitlines_from cur [] = (if cur = [] then [] else [cur])"
| "splitlines_from cur [c] =
     (if is_linebreak c then [cur] else [cur @ [c]])"
| "splitlines_from cur (c # d # ds) =
     (if c = 13 \<and> d = 10 then cur # splitlines_from [] ds
      else if is_linebreak c then cur # splitlines_from [] (d # ds)
      else splitlines_from (cur @ [c]) (d # ds))"

definition splitlines :: "ustr \<Rightarrow> ustr list" where
  "splitlines s = splitlines_from [] s"

section \<open>The compiled patterns\<close>

text \<open>
  Each pattern of the module is modelled as the function that the backtracking matcher
  computes for it. The common tail \<^verbatim>\<open>\s*(.+)\<close> (or \<^verbatim>\<open>\s+(.+)\<close>) is greedy: the whitespace
  takes the whole run, and gives characters back one at a time until the dot, which
  matches everything but a line feed, finds a character. \<open>ws_backtrack minw k s\<close> tries
  \<open>k\<close> whitespace characters, then fewer, never less than \<open>minw\<close>; it returns the number
  of whitespace characters kept and the text of the group.
\<close>

fun ws_backtrack :: "nat \<Rightarrow> nat \<Rightarrow> ustr \<Rightarrow> (nat \<times> ustr) option" where
  "ws_backtrack minw k s =
     (if k < minw then None
      else if k < length s \<and> s ! k \<noteq> 10 then Some (k, takeWhile (\<lambda>c. c \<noteq> 10) (drop k s))
      else (case k of 0 \<Rightarrow> None | Suc j \<Rightarrow> ws_backtrack minw j s))"

definition ws_then_group :: "nat \<Rightarrow> ustr \<Rightarrow> (nat \<times> ustr) option" where
  "ws_then_group minw s = ws_backtrack minw (length (takeWhile is_space s)) s"

subsection \<open>\<^verbatim>\<open>SECTION_HEADER_RE = ^\s*##+\s+(.+)$\<close>, multi-line\<close>

text \<open>
  A match object: its start, its end, and group 1.
\<close>

record re_match =
  m_start :: nat
  m_end :: nat
  m_group1 :: ustr

text \<open>
  The match attempted at a position where \<^verbatim>\<open>^\<close> holds, on the text from there on: the
  length of the match and group 1. Neither \<^verbatim>\<open>\s*\<close> nor \<^verbatim>\<open>##+\<close> can give anything back
  usefully, since the character after each run is outside its class.
\<close>

definition section_header_match :: "ustr \<Rightarrow> (nat \<times> ustr) option" where
  "section_header_match s =
     (let n0 = length (takeWhile is_space s);
          s1 = drop n0 s;
          h = length (takeWhile (\<lambda>c. c = 35) s1);
          s2 = drop h s1
      in if h < 2 then None
         else (case ws_then_group 1 s2 of
                 None \<Rightarrow> None
               | Some (k, g) \<Rightarrow> Some (n0 + h + k + length g, g)))"

text \<open>
  \<^verbatim>\<open>SECTION_HEADER_RE.finditer(text)\<close>: \<open>pos\<close> is the position of the first character of
  the remaining text and \<open>bol\<close> says whether \<^verbatim>\<open>^\<close> holds there (at 0 and after a line
  feed). After a match the scan goes on from its end.
\<close>

function section_header_finditer :: "nat \<Rightarrow> bool \<Rightarrow> ustr \<Rightarrow> re_match list" where
  "section_header_finditer pos bol [] = []"
| "section_header_finditer pos bol (c # cs) =
     (case (if bol then section_header_match (c # cs) else None) of
        Some (n, g) \<Rightarrow>
          \<lparr>m_start = pos, m_end = pos + n, m_group1 = g\<rparr>
            # section_header_finditer (pos + n) False (drop n (c # cs))
      | None \<Rightarrow> section_header_finditer (Suc pos) (c = 10) cs)"
  by pat_completeness auto
termination
  by (relation "measure (\<lambda>(pos, bol, s). length s)")
     (auto simp: section_header_match_def Let_def split: if_splits option.splits)

subsection \<open>\<^verbatim>\<open>EMOJI_RE\<close>\<close>

text \<open>\<^verbatim>\<open>EMOJI_RE.sub("", raw)\<close> deletes every run of the class, that is every character of it.\<close>

definition emoji_re_sub :: "ustr \<Rightarrow> ustr" where
  "emoji_re_sub raw = filter (\<lambda>c. \<not> is_emoji c) raw"

subsection \<open>\<^verbatim>\<open>SCENARIO_RE = \*\*(.+?)\*\*\s*[\<close>U+2013 U+2014\<^verbatim>\<open>-]\s*(.+)\<close>\<close>

text \<open>What follows the closing stars: whitespace, one dash, whitespace, group 2.\<close>

definition scenario_tail :: "ustr \<Rightarrow> ustr option" where
  "scenario_tail s =
     (case dropWhile is_space s of
        [] \<Rightarrow> None
      | d # s2 \<Rightarrow>
          if d = 8211 \<or> d = 8212 \<or> d = 45
          then (case ws_then_group 0 s2 of None \<Rightarrow> None | Some (k, g) \<Rightarrow> Some g)
          else None)"

text \<open>
  The lazy group 1 after the opening stars: it takes one more character (never a line
  feed) and then tries the rest of the pattern, extending only when the rest fails.
\<close>

fun scenario_lazy :: "ustr \<Rightarrow> ustr \<Rightarrow> (ustr \<times> ustr) option" where
  "scenario_lazy g [] = None"
| "scenario_lazy g (c # cs) =
     (if c = 10 then None
      else (case (if startswith cs (of_ascii ''**'') then scenario_tail (drop 2 cs) else None) of
              Some summ \<Rightarrow> Some (g @ [c], summ)
            | None \<Rightarrow> scenario_lazy (g @ [c]) cs))"

text \<open>\<^verbatim>\<open>SCENARIO_RE.search(cell)\<close>: the leftmost start that matches; groups 1 and 2.\<close>

fun scenario_re_search :: "ustr \<Rightarrow> (ustr \<times> ustr) option" where
  "scenario_re_search [] = None"
| "scenario_re_search (c # cs) =
     (case (if startswith (c # cs) (of_ascii ''**'') then scenario_lazy [] (drop 2 (c # cs))
            else None) of
        Some r \<Rightarrow> Some r
      | None \<Rightarrow> scenario_re_search cs)"

subsection \<open>\<^verbatim>\<open>re.split(r"\s*-\s*", stripped, maxsplit=1)\<close>\<close>

fun dash_split_once :: "ustr \<Rightarrow> ustr \<Rightarrow> ustr list" where
  "dash_split_once pre [] = [pre]"
| "dash_split_once pre (c # cs) =
     (case dropWhile is_space (c # cs) of
        [] \<Rightarrow> dash_split_once (pre @ [c]) cs
      | d # rest \<Rightarrow>
          if d = 45 then [pre, dropWhile is_space rest]
          else dash_split_once (pre @ [c]) cs)"

subsection \<open>\<^verbatim>\<open>DRIVER_SPLIT_RE = \s*(?:\+|,|;|/| \<close>U+0438\<^verbatim>\<open> | and )\s*\<close>, ignoring case\<close>

text \<open>
  The length of the match at the head of \<open>s\<close>. After the whole whitespace run only a
  one-character delimiter can follow; after giving one space back, only the two words.
  Ignoring case, U+0438 also matches U+0418, and a, n, d match A, N, D.
\<close>

definition driver_delim_match :: "ustr \<Rightarrow> nat option" where
  "driver_delim_match s =
     (let n = length (takeWhile is_space s); t = drop n s
      in case t of
           [] \<Rightarrow> None
         | c # t' \<Rightarrow>
             if c = 43 \<or> c = 44 \<or> c = 59 \<or> c = 47
             then Some (n + 1 + length (takeWhile is_space t'))
             else if 1 \<le> n \<and> s ! (n - 1) = 32
             then (if (c = 1080 \<or> c = 1048) \<and> startswith t' [32]
                   then Some (n + 2 + length (takeWhile is_space (drop 1 t')))
                   else if (c = 97 \<or> c = 65) \<and> 3 \<le> length t' \<and>
                           (t' ! 0 = 110 \<or> t' ! 0 = 78) \<and> (t' ! 1 = 100 \<or> t' ! 1 = 68) \<and>
                           t' ! 2 = 32
                   then Some (n + 4 + length (takeWhile is_space (drop 3 t')))
                   else None)
             else None)"

text \<open>\<^verbatim>\<open>DRIVER_SPLIT_RE.split(normalized)\<close>.\<close>

function driver_split_from :: "ustr \<Rightarrow> ustr \<Rightarrow> ustr list" where
  "driver_split_from cur [] = [cur]"
| "driver_split_from cur (c # cs) =
     (case driver_delim_match (c # cs) of
        Some n \<Rightarrow> cur # driver_split_from [] (drop n (c # cs))
      | None \<Rightarrow> driver_split_from (cur @ [c]) cs)"
  by pat_completeness auto
termination
  by (relation "measure (\<lambda>(cur, s). length s)") (auto simp: driver_delim_match_def Let_def split: list.splits if_splits)

definition driver_split_re_split :: "ustr \<Rightarrow> ustr list" where
  "driver_split_re_split s = driver_split_from [] s"

subsection \<open>\<^verbatim>\<open>INDEX_CELL_RE = ^\d+(\.\d+)?$\<close>\<close>

text \<open>Without the multi-line flag, \<^verbatim>\<open>$\<close> holds at the end and before a final line feed.\<close>

definition at_dollar :: "ustr \<Rightarrow> bool" where
  "at_dollar r \<longleftrightarrow> r = [] \<or> r = [10]"

definition index_cell_re_match :: "ustr \<Rightarrow> bool" where
  "index_cell_re_match s =
     (let r = dropWhile is_digit s
      in takeWhile is_digit s \<noteq> [] \<and>
         (at_dollar r \<or>
          (case r of
             [] \<Rightarrow> False
           | c # r' \<Rightarrow> c = 46 \<and> takeWhile is_digit r' \<noteq> [] \<and> at_dollar (dropWhile is_digit r'))))"

subsection \<open>The substitutions of whole runs\<close>

text \<open>\<^verbatim>\<open>re.sub(r"\s+", " ", item)\<close>.\<close>

function sub_space_runs :: "ustr \<Rightarrow> ustr" where
  "sub_space_runs [] = []"
| "sub_space_runs (c # cs) =
     (if is_space c then 32 # sub_space_runs (dropWhile is_space cs)
      else c # sub_space_runs cs)"
  by pat_completeness auto
termination
  by (relation "measure length") (auto simp: less_Suc_eq_le length_dropWhile_le)

text \<open>\<^verbatim>\<open>re.sub(r"[^0-9a-zA-Z...]+", " ", s)\<close> with the class of \<open>is_header_alnum\<close>.\<close>

function sub_nonalnum_runs :: "ustr \<Rightarrow> ustr" where
  "sub_nonalnum_runs [] = []"
| "sub_nonalnum_runs (c # cs) =
     (if \<not> is_header_alnum c
      then 32 # sub_nonalnum_runs (dropWhile (\<lambda>c. \<not> is_header_alnum c) cs)
      else c # sub_nonalnum_runs cs)"
  by pat_completeness auto
termination
  by (relation "measure length") (auto simp: less_Suc_eq_le length_dropWhile_le)

text \<open>
  \<^verbatim>\<open>str.lower()\<close>, as far as \<^verbatim>\<open>_normalize_header_text\<close> can see it: the result goes
  straight into the substitution above, which turns every character outside
  \<open>is_header_alnum\<close> into a space. The code points whose lower case has a character of
  that class are A-Z, U+0410 to U+042F, the Kelvin sign U+212A (k) and U+0130 (i followed
  by U+0307); every other code point is left as it is here, its lower case being outside
  the class as itself is, or being itself.
\<close>

definition lower_cp :: "int \<Rightarrow> ustr" where
  "lower_cp c =
     (if (65 \<le> c \<and> c \<le> 90) \<or> (1040 \<le> c \<and> c \<le> 1071) then [c + 32]
      else if c = 8490 then [107]
      else if c = 304 then [105, 775]
      else [c])"

definition py_lower :: "ustr \<Rightarrow> ustr" where
  "py_lower s = concat (map lower_cp s)"

section \<open>The payloads\<close>

text \<open>
  The dictionaries that \<^verbatim>\<open>parse_agent_output\<close> builds have fixed keys, so they are
  records: the value under \<^verbatim>\<open>"case"\<close>, an entry of \<^verbatim>\<open>"economic_effects"\<close>, and the payload.
\<close>

record case_data =
  region_name :: ustr
  sector_name :: ustr
  title :: ustr
  summary :: ustr
  detailed_notes :: "ustr option"
  key_effect_note :: ustr

record effect =
  effect_type :: ustr
  value_numeric :: "int option"
  currency :: "ustr option"
  period_note :: ustr

record payload =
  case_of :: case_data
  economic_effects :: "effect list"
  technology_drivers :: "ustr list"

section \<open>The helpers of \<^verbatim>\<open>parse_agent_output\<close>\<close>

definition strip_markdown :: "ustr \<Rightarrow> ustr" where
  "strip_markdown text =
     (let cleaned = py_replace [96] [] (py_replace (of_ascii ''__'') []
                      (py_replace (of_ascii ''**'') [] text));
          cleaned = py_replace [8212] (of_ascii ''-'') (py_replace [8211] (of_ascii ''-'') cleaned)
      in py_join (of_ascii '' '') (py_split cleaned))"

definition clean_region_name :: "ustr \<Rightarrow> ustr" where
  "clean_region_name raw =
     (let cleaned = py_strip (emoji_re_sub raw)
      in py_join (of_ascii '' '') (py_split cleaned))"

definition extract_title_and_summary :: "ustr \<Rightarrow> error + (ustr \<times> ustr)" where
  "extract_title_and_summary cell =
     (case scenario_re_search cell of
        Some (g1, g2) \<Rightarrow> Inr (strip_markdown g1, py_strip g2)
      | None \<Rightarrow>
          (let stripped = strip_markdown cell;
               parts = dash_split_once [] stripped
           in if length parts = 2
              then bind_res (py_index parts 0) (\<lambda>p0.
                   bind_res (py_index parts 1) (\<lambda>p1. Inr (py_strip p0, py_strip p1)))
              else Inr (stripped, [])))"

definition parse_technology_drivers :: "ustr \<Rightarrow> ustr list" where
  "parse_technology_drivers cell =
     (if cell = [] then []
      else (let normalized = py_replace [8239] (of_ascii '' '')
                               (py_replace [8239] (of_ascii '' '') cell);
                candidates = map (\<lambda>item. strip_chars (of_ascii '' .'') (sub_space_runs item))
                               (driver_split_re_split normalized)
            in filter (\<lambda>c. c \<noteq> []) candidates))"

definition build_effects :: "ustr \<Rightarrow> effect list" where
  "build_effects effect_text =
     (let cleaned = strip_markdown effect_text
      in if cleaned = [] then []
         else [\<lparr>effect_type = of_ascii ''text_note'', value_numeric = None,
                 currency = None, period_note = cleaned\<rparr>])"

definition normalize_header_text :: "ustr \<Rightarrow> ustr" where
  "normalize_header_text header =
     (let normalized = sub_nonalnum_runs (py_lower header)
      in py_strip (sub_space_runs normalized))"

fun find_column_index_loop :: "(int \<times> ustr) list \<Rightarrow> ustr list \<Rightarrow> int option" where
  "find_column_index_loop [] keywords = None"
| "find_column_index_loop ((idx, header) # rest) keywords =
     (if list_ex (\<lambda>keyword. contains keyword header) keywords then Some idx
      else find_column_index_loop rest keywords)"

definition find_column_index :: "ustr list \<Rightarrow> ustr list \<Rightarrow> int option" where
  "find_column_index headers keywords = find_column_index_loop (py_enumerate 0 headers) keywords"

definition safe_get :: "ustr list \<Rightarrow> int option \<Rightarrow> error + ustr" where
  "safe_get cells idx =
     (case idx of
        None \<Rightarrow> Inr []
      | Some i \<Rightarrow> if i < 0 \<or> i \<ge> int (length cells) then Inr [] else py_index cells i)"

section \<open>\<^verbatim>\<open>parse_agent_output\<close>\<close>

text \<open>The five column variables of the loop over the sections.\<close>

record columns =
  sector_idx :: "int option"
  scenario_idx :: "int option"
  effect_idx :: "int option"
  drivers_idx :: "int option"
  source_idx :: "int option"

text \<open>\<^verbatim>\<open>[cell.strip() for cell in line.strip().strip("|").split("|")]\<close>\<close>

definition split_cells :: "ustr \<Rightarrow> ustr list" where
  "split_cells line = map py_strip (py_split_sep 124 (strip_chars [124] (py_strip line)))"

text \<open>\<^verbatim>\<open>[ln for ln in body.splitlines() if ln.strip().startswith("|")]\<close>\<close>

definition table_lines_of :: "ustr \<Rightarrow> ustr list" where
  "table_lines_of body = filter (\<lambda>ln. startswith (py_strip ln) [124]) (splitlines body)"

text \<open>\<^verbatim>\<open>next((i for i, ln in enumerate(table_lines) if "| # " in ln), None)\<close>\<close>

fun find_header_idx :: "(int \<times> ustr) list \<Rightarrow> int option" where
  "find_header_idx [] = None"
| "find_header_idx ((i, ln) # rest) =
     (if contains (of_ascii ''| # '') ln then Some i else find_header_idx rest)"

text \<open>The condition \<^verbatim>\<open>"---" not in ln and ln.strip().strip("|")\<close> of both comprehensions.\<close>

definition is_data_line :: "ustr \<Rightarrow> bool" where
  "is_data_line ln \<longleftrightarrow> \<not> contains (of_ascii ''---'') ln \<and> strip_chars [124] (py_strip ln) \<noteq> []"

definition positional_columns :: columns where
  "positional_columns =
     \<lparr>sector_idx = Some 1, scenario_idx = Some 2, effect_idx = Some 3,
      drivers_idx = None, source_idx = Some 4\<rparr>"

definition header_columns :: "ustr \<Rightarrow> columns" where
  "header_columns header_line =
     (let header_cells = split_cells header_line;
          normalized_headers = map normalize_header_text header_cells
      in \<lparr>sector_idx = find_column_index normalized_headers
             [[1089, 1077, 1082, 1090, 1086, 1088], of_ascii ''sector''],
          scenario_idx = find_column_index normalized_headers
             [[1089, 1094, 1077, 1085, 1072, 1088, 1080, 1081],
              [1086, 1087, 1080, 1089, 1072, 1085, 1080, 1077],
              of_ascii ''scenario'', of_ascii ''description''],
          effect_idx = find_column_index normalized_headers
             [[1101, 1082, 1086, 1085, 1086, 1084], [1101, 1092, 1092, 1077, 1082, 1090],
              of_ascii ''effect''],
          drivers_idx = find_column_index normalized_headers
             [[1076, 1088, 1072, 1081, 1074, 1077, 1088], of_ascii ''driver'',
              [1090, 1077, 1093, 1085, 1086, 1083, 1086, 1075]],
          source_idx = find_column_index normalized_headers
             [[1080, 1089, 1090, 1086, 1095, 1085, 1080, 1082],
              [1086, 1073, 1086, 1089, 1085, 1086, 1074, 1072, 1085],
              of_ascii ''source'', of_ascii ''reference'']\<rparr>)"

text \<open>
  The branch on \<^verbatim>\<open>header_idx\<close>: the columns and the data lines of a section's table.
\<close>

definition locate_table :: "ustr list \<Rightarrow> error + (columns \<times> ustr list)" where
  "locate_table table_lines =
     (case find_header_idx (py_enumerate 0 table_lines) of
        None \<Rightarrow> Inr (positional_columns, filter is_data_line table_lines)
      | Some header_idx \<Rightarrow>
          bind_res (py_index table_lines header_idx) (\<lambda>header_line.
            Inr (header_columns header_line,
                 map snd (filter (\<lambda>(i, ln). i > header_idx \<and> is_data_line ln)
                            (py_enumerate 0 table_lines)))))"

text \<open>
  One turn of the loop over \<^verbatim>\<open>data_lines\<close>: \<open>None\<close> where the source says
  \<^verbatim>\<open>continue\<close>, the payload it appends otherwise.
\<close>

definition row_payload :: "ustr \<Rightarrow> columns \<Rightarrow> ustr \<Rightarrow> error + payload option" where
  "row_payload region cols line =
     (let cells = split_cells line
      in bind_res (safe_get cells (Some 0)) (\<lambda>index_cell.
         if \<not> index_cell_re_match index_cell then Inr None
         else
           bind_res (safe_get cells (sector_idx cols)) (\<lambda>sector_cell.
           bind_res (safe_get cells (scenario_idx cols)) (\<lambda>scenario_cell.
           bind_res (safe_get cells (effect_idx cols)) (\<lambda>effect_cell.
           bind_res (safe_get cells (drivers_idx cols)) (\<lambda>driver_cell.
           bind_res (safe_get cells (source_idx cols)) (\<lambda>source_cell.
             if scenario_cell = [] then Inr None
             else
               bind_res (extract_title_and_summary scenario_cell) (\<lambda>(title', summary').
                 (let effect_note = strip_markdown effect_cell;
                      source_note = strip_markdown source_cell;
                      drivers = (if drivers_idx cols \<noteq> None \<and> driver_cell \<noteq> []
                                 then parse_technology_drivers driver_cell else [])
                  in Inr (Some
                       \<lparr>case_of =
                          \<lparr>region_name = region,
                           sector_name = strip_markdown sector_cell,
                           title = title',
                           summary = (if summary' \<noteq> [] then summary' else effect_note),
                           detailed_notes = (if source_note \<noteq> [] then Some source_note else None),
                           key_effect_note = effect_note\<rparr>,
                        economic_effects = build_effects effect_cell,
                        technology_drivers = drivers\<rparr>))))))))))"

fun rows_loop :: "ustr \<Rightarrow> columns \<Rightarrow> ustr list \<Rightarrow> payload list \<Rightarrow> error + payload list" where
  "rows_loop region cols [] payloads = Inr payloads"
| "rows_loop region cols (line # rest) payloads =
     bind_res (row_payload region cols line) (\<lambda>r.
       case r of
         None \<Rightarrow> rows_loop region cols rest payloads
       | Some p \<Rightarrow> rows_loop region cols rest (payloads @ [p]))"

text \<open>\<^verbatim>\<open>end\<close> of a section: the start of the next match, or the length of the text.\<close>

definition section_end :: "ustr \<Rightarrow> re_match list \<Rightarrow> int \<Rightarrow> error + nat" where
  "section_end agent_output section_matches idx =
     (if idx + 1 < int (length section_matches)
      then bind_res (py_index section_matches (idx + 1)) (\<lambda>nxt. Inr (m_start nxt))
      else Inr (length agent_output))"

text \<open>One turn of the loop over the sections, on the payloads collected so far.\<close>

definition section_step ::
  "ustr \<Rightarrow> re_match list \<Rightarrow> int \<Rightarrow> re_match \<Rightarrow> payload list \<Rightarrow> error + payload list" where
  "section_step agent_output section_matches idx m payloads =
     (let header = py_strip (m_group1 m);
          region = clean_region_name header;
          start = m_end m
      in bind_res (section_end agent_output section_matches idx) (\<lambda>end'.
         (let body = py_slice agent_output start end';
              table_lines = table_lines_of body
          in if table_lines = [] then Inr payloads
             else bind_res (locate_table table_lines) (\<lambda>(cols, data_lines).
                    if sector_idx cols = None \<or> scenario_idx cols = None \<or> effect_idx cols = None
                    then Inr payloads
                    else rows_loop region cols data_lines payloads))))"

fun sections_loop ::
  "ustr \<Rightarrow> re_match list \<Rightarrow> (int \<times> re_match) list \<Rightarrow> payload list \<Rightarrow> error + payload list" where
  "sections_loop agent_output section_matches [] payloads = Inr payloads"
| "sections_loop agent_output section_matches ((idx, m) # rest) payloads =
     bind_res (section_step agent_output section_matches idx m payloads)
       (sections_loop agent_output section_matches rest)"

definition parse_agent_output :: "ustr \<Rightarrow> error + payload list" where
  "parse_agent_output agent_output =
     (let section_matches = section_header_finditer 0 True agent_output
      in sections_loop agent_output section_matches (py_enumerate 0 section_matches) [])"

section \<open>Sample reports\<close>

text \<open>
  Table rows and whole reports on which the properties below are evaluated, with the
  payloads the parser returns for them. Lines are joined by a line feed (code point 10).
\<close>

definition row_plain :: ustr where
  "row_plain = of_ascii ''| 1 | S | T - U | E |''"

definition row_decimal :: ustr where
  "row_decimal = of_ascii ''| 2.1 | S2 | **T2** '' @ [8212] @ of_ascii '' U2 | E2 | src |''"

definition row_note :: ustr where
  "row_note = of_ascii ''| '' @ [1055, 1088, 1080, 1084, 1077, 1095, 1072, 1085, 1080, 1077] @ of_ascii '' | a | b - c | d |''"

definition row_dashes :: ustr where
  "row_dashes = of_ascii ''| 3 | S | a --- b | e |''"

definition row_markers_only :: ustr where
  "row_markers_only = of_ascii ''| 1 | S | ** | |''"



definition row_header :: ustr where
  "row_header = of_ascii ''| # | Sector | Scenario | Effect | Drivers |''"

definition row_separator :: ustr where
  "row_separator = of_ascii ''|---|---|---|---|---|''"

definition row_drivers :: ustr where
  "row_drivers = of_ascii ''| 1 | Fin | A - B | E | LLM, LLM |''"


definition row_effect_markers :: ustr where
  "row_effect_markers = of_ascii ''| 1 | S | A - B | ** |''"

definition sample_two_regions :: ustr where
  "sample_two_regions =
     of_ascii ''## A'' @ [10] @
     row_plain @ [10] @
     [] @ [10] @
     of_ascii ''## B '' @ [127757] @ [10] @
     row_decimal @ [10] @
     row_note @ [10] @
     row_dashes"

definition sample_markers_only :: ustr where
  "sample_markers_only =
     of_ascii ''## R'' @ [10] @
     row_markers_only"


definition sample_duplicate_drivers :: ustr where
  "sample_duplicate_drivers =
     of_ascii ''## R'' @ [10] @
     row_header @ [10] @
     row_separator @ [10] @
     row_drivers"


definition sample_effect_markers :: ustr where
  "sample_effect_markers =
     of_ascii ''## R'' @ [10] @
     row_effect_markers"

definition sample_bare_hashes :: ustr where
  "sample_bare_hashes =
     of_ascii ''## A'' @ [10] @
     of_ascii ''##'' @ [10] @
     row_plain"

definition sample_one_region :: ustr where
  "sample_one_region =
     of_ascii ''## A'' @ [10] @
     row_plain"

definition payload_region_a :: payload where
  "payload_region_a =
     \<lparr>case_of =
         \<lparr>region_name = of_ascii ''A'', sector_name = of_ascii ''S'',
          title = of_ascii ''T'', summary = of_ascii ''U'',
          detailed_notes = None, key_effect_note = of_ascii ''E''\<rparr>,
       economic_effects =
         [\<lparr>effect_type = of_ascii ''text_note'', value_numeric = None,
            currency = None, period_note = of_ascii ''E''\<rparr>],
       technology_drivers = []\<rparr>"

definition payload_region_b :: payload where
  "payload_region_b =
     \<lparr>case_of =
         \<lparr>region_name = of_ascii ''B'', sector_name = of_ascii ''S2'',
          title = of_ascii ''T2'', summary = of_ascii ''U2'',
          detailed_notes = Some (of_ascii ''src''), key_effect_note = of_ascii ''E2''\<rparr>,
       economic_effects =
         [\<lparr>effect_type = of_ascii ''text_note'', value_numeric = None,
            currency = None, period_note = of_ascii ''E2''\<rparr>],
       technology_drivers = []\<rparr>"

definition payload_markers_only :: payload where
  "payload_markers_only =
     \<lparr>case_of =
         \<lparr>region_name = of_ascii ''R'', sector_name = of_ascii ''S'',
          title = [], summary = [],
          detailed_notes = None, key_effect_note = []\<rparr>,
       economic_effects =
         [],
       technology_drivers = []\<rparr>"


definition payload_duplicate_drivers :: payload where
  "payload_duplicate_drivers =
     \<lparr>case_of =
         \<lparr>region_name = of_ascii ''R'', sector_name = of_ascii ''Fin'',
          title = of_ascii ''A'', summary = of_ascii ''B'',
          detailed_notes = None, key_effect_note = of_ascii ''E''\<rparr>,
       economic_effects =
         [\<lparr>effect_type = of_ascii ''text_note'', value_numeric = None,
            currency = None, period_note = of_ascii ''E''\<rparr>],
       technology_drivers = [of_ascii ''LLM'', of_ascii ''LLM'']\<rparr>"

definition payload_effect_markers :: payload where
  "payload_effect_markers =
     \<lparr>case_of =
         \<lparr>region_name = of_ascii ''R'', sector_name = of_ascii ''S'',
          title = of_ascii ''A'', summary = of_ascii ''B'',
          detailed_notes = None, key_effect_note = []\<rparr>,
       economic_effects =
         [],
       technology_drivers = []\<rparr>"

definition row_three_drivers :: ustr where
  "row_three_drivers = of_ascii ''| 1 | Fin | A - B | E | RAG, LLM, RAG |''"

definition row_stray :: ustr where
  "row_stray = of_ascii ''| x |''"

definition row_second :: ustr where
  "row_second = of_ascii ''| 2 | S | V - W | E |''"

definition sample_three_drivers :: ustr where
  "sample_three_drivers =
     of_ascii ''## R'' @ [10] @
     row_header @ [10] @
     row_separator @ [10] @
     row_three_drivers"

definition sample_swallowed_heading :: ustr where
  "sample_swallowed_heading =
     of_ascii ''## A'' @ [10] @
     of_ascii ''##'' @ [10] @
     row_stray @ [10] @
     row_plain @ [10] @
     of_ascii ''## B'' @ [10] @
     row_second"

definition payload_three_drivers :: payload where
  "payload_three_drivers =
     \<lparr>case_of =
         \<lparr>region_name = of_ascii ''R'', sector_name = of_ascii ''Fin'',
          title = of_ascii ''A'', summary = of_ascii ''B'',
          detailed_notes = None, key_effect_note = of_ascii ''E''\<rparr>,
       economic_effects =
         [\<lparr>effect_type = of_ascii ''text_note'', value_numeric = None,
            currency = None, period_note = of_ascii ''E''\<rparr>],
       technology_drivers = [of_ascii ''RAG'', of_ascii ''LLM'', of_ascii ''RAG'']\<rparr>"

definition payload_stray_region :: payload where
  "payload_stray_region =
     \<lparr>case_of =
         \<lparr>region_name = of_ascii ''| x |'', sector_name = of_ascii ''S'',
          title = of_ascii ''T'', summary = of_ascii ''U'',
          detailed_notes = None, key_effect_note = of_ascii ''E''\<rparr>,
       economic_effects =
         [\<lparr>effect_type = of_ascii ''text_note'', value_numeric = None,
            currency = None, period_note = of_ascii ''E''\<rparr>],
       technology_drivers = []\<rparr>"

definition payload_second_region :: payload where
  "payload_second_region =
     \<lparr>case_of =
         \<lparr>region_name = of_ascii ''B'', sector_name = of_ascii ''S'',
          title = of_ascii ''V'', summary = of_ascii ''W'',
          detailed_notes = None, key_effect_note = of_ascii ''E''\<rparr>,
       economic_effects =
         [\<lparr>effect_type = of_ascii ''text_note'', value_numeric = None,
            currency = None, period_note = of_ascii ''E''\<rparr>],
       technology_drivers = []\<rparr>"

section \<open>Facts about the loops\<close>

text \<open>
  Every subscript of the function is in range where it is evaluated, so no turn of
  either loop fails; a turn either appends one payload or leaves the list as it is.
\<close>

lemma py_index_in_range:
  "0 \<le> i \<Longrightarrow> nat i < length xs \<Longrightarrow> py_index xs i = Inr (xs ! nat i)"
  by (simp add: py_index_def Let_def)

lemma py_enumerate_length [simp]: "length (py_enumerate k xs) = length xs"
  by (induction xs arbitrary: k) auto

lemma py_enumerate_nth:
  "j < length xs \<Longrightarrow> py_enumerate k xs ! j = (k + int j, xs ! j)"
proof (induction xs arbitrary: k j)
  case Nil
  then show ?case by simp
next
  case (Cons x xs)
  then show ?case by (cases j) (auto simp: algebra_simps)
qed

lemma py_enumerate_set:
  "(i, x) \<in> set (py_enumerate k xs) \<Longrightarrow> k \<le> i \<and> nat (i - k) < length xs \<and> x = xs ! nat (i - k)"
proof (induction xs arbitrary: k)
  case Nil
  then show ?case by simp
next
  case (Cons y ys)
  from Cons.prems have "(i = k \<and> x = y) \<or> (i, x) \<in> set (py_enumerate (k + 1) ys)"
    by auto
  then show ?case
  proof
    assume "i = k \<and> x = y"
    then show ?thesis by simp
  next
    assume "(i, x) \<in> set (py_enumerate (k + 1) ys)"
    from Cons.IH[OF this] have a: "k + 1 \<le> i" and b: "nat (i - (k + 1)) < length ys"
      and c: "x = ys ! nat (i - (k + 1))" by auto
    from a have d: "nat (i - k) = Suc (nat (i - (k + 1)))" by simp
    show ?thesis using a b c by (simp add: d)
  qed
qed

lemma safe_get_total: "\<exists>v. safe_get cells idx = Inr v"
  by (auto simp: safe_get_def py_index_def Let_def split: option.splits)

lemma extract_title_and_summary_total: "\<exists>r. extract_title_and_summary cell = Inr r"
  by (auto simp: extract_title_and_summary_def py_index_def Let_def bind_res_def
      split: option.splits)

lemma row_payload_total: "\<exists>r. row_payload region cols line = Inr r"
proof -
  obtain c0 where c0: "safe_get (split_cells line) (Some 0) = Inr c0"
    using safe_get_total by blast
  obtain c1 where c1: "safe_get (split_cells line) (sector_idx cols) = Inr c1"
    using safe_get_total by blast
  obtain c2 where c2: "safe_get (split_cells line) (scenario_idx cols) = Inr c2"
    using safe_get_total by blast
  obtain c3 where c3: "safe_get (split_cells line) (effect_idx cols) = Inr c3"
    using safe_get_total by blast
  obtain c4 where c4: "safe_get (split_cells line) (drivers_idx cols) = Inr c4"
    using safe_get_total by blast
  obtain c5 where c5: "safe_get (split_cells line) (source_idx cols) = Inr c5"
    using safe_get_total by blast
  obtain ts where ts: "extract_title_and_summary c2 = Inr ts"
    using extract_title_and_summary_total by blast
  show ?thesis
    by (simp add: row_payload_def Let_def bind_res_def c0 c1 c2 c3 c4 c5 ts split: prod.splits)
qed

lemma rows_loop_eq:
  "rows_loop region cols lines acc =
     Inr (acc @ List.map_filter (\<lambda>line. case row_payload region cols line of
                                           Inr r \<Rightarrow> r | Inl e \<Rightarrow> None) lines)"
proof (induction lines arbitrary: acc)
  case Nil
  then show ?case by (simp add: List.map_filter_simps)
next
  case (Cons line rest)
  obtain r where r: "row_payload region cols line = Inr r"
    using row_payload_total by blast
  show ?case
    by (cases r) (simp_all add: r bind_res_def Cons.IH List.map_filter_simps)
qed


lemma find_header_idx_Some:
  "find_header_idx (py_enumerate k tls) = Some h \<longleftrightarrow>
     k \<le> h \<and> nat (h - k) < length tls \<and> contains (of_ascii ''| # '') (tls ! nat (h - k)) \<and>
     (\<forall>j < nat (h - k). \<not> contains (of_ascii ''| # '') (tls ! j))"
proof (induction tls arbitrary: k)
  case Nil
  then show ?case by simp
next
  case (Cons ln rest)
  show ?case
  proof (cases "contains (of_ascii ''| # '') ln")
    case True
    have "(\<forall>j<nat (h - k). \<not> contains (of_ascii ''| # '') ((ln # rest) ! j)) \<longleftrightarrow> nat (h - k) = 0"
    proof
      assume a: "\<forall>j<nat (h - k). \<not> contains (of_ascii ''| # '') ((ln # rest) ! j)"
      show "nat (h - k) = 0"
      proof (rule ccontr)
        assume "nat (h - k) \<noteq> 0"
        then have "0 < nat (h - k)" by simp
        with a have "\<not> contains (of_ascii ''| # '') ((ln # rest) ! 0)" by blast
        with True show False by simp
      qed
    next
      assume "nat (h - k) = 0"
      then show "\<forall>j<nat (h - k). \<not> contains (of_ascii ''| # '') ((ln # rest) ! j)" by simp
    qed
    then show ?thesis using True by auto
  next
    case False
    have eq: "find_header_idx (py_enumerate k (ln # rest)) = find_header_idx (py_enumerate (k + 1) rest)"
      using False by simp
    show ?thesis
    proof (cases "k + 1 \<le> h")
      case le: True
      then have d: "nat (h - k) = Suc (nat (h - (k + 1)))" by simp
      have all: "(\<forall>j<Suc (nat (h - (k + 1))). \<not> contains (of_ascii ''| # '') ((ln # rest) ! j)) \<longleftrightarrow>
                 (\<forall>j<nat (h - (k + 1)). \<not> contains (of_ascii ''| # '') (rest ! j))"
        using False by (auto simp: less_Suc_eq_0_disj)
      show ?thesis unfolding eq Cons.IH d using le all by auto
    next
      case nle: False
      then have "h \<le> k" by simp
      then have "nat (h - k) = 0" by simp
      then show ?thesis unfolding eq Cons.IH using nle False by auto
    qed
  qed
qed


lemma locate_table_None:
  "find_header_idx (py_enumerate 0 tls) = None \<Longrightarrow>
   locate_table tls = Inr (positional_columns, filter is_data_line tls)"
  by (simp add: locate_table_def)

lemma locate_table_Some:
  assumes "find_header_idx (py_enumerate 0 tls) = Some h"
  shows "locate_table tls =
           Inr (header_columns (tls ! nat h),
                map snd (filter (\<lambda>(i, ln). i > h \<and> is_data_line ln) (py_enumerate 0 tls)))"
proof -
  from assms have "0 \<le> h" and "nat h < length tls"
    by (simp_all add: find_header_idx_Some)
  then have "py_index tls h = Inr (tls ! nat h)" by (rule py_index_in_range)
  then show ?thesis using assms by (simp add: locate_table_def bind_res_def)
qed

lemma locate_table_data_lines:
  assumes "locate_table tls = Inr (cols, dls)" and "line \<in> set dls"
  shows "line \<in> set tls \<and> is_data_line line"
proof (cases "find_header_idx (py_enumerate 0 tls)")
  case None
  from locate_table_None[OF None] assms show ?thesis by auto
next
  case (Some h)
  from locate_table_Some[OF Some] assms(1)
  have "dls = map snd (filter (\<lambda>(i, ln). i > h \<and> is_data_line ln) (py_enumerate 0 tls))"
    by simp
  with assms(2) obtain i where i: "(i, line) \<in> set (py_enumerate 0 tls)" and d: "is_data_line line"
    by auto
  from py_enumerate_set[OF i] have "line \<in> set tls" by auto
  with d show ?thesis by simp
qed

lemma locate_table_total: "\<exists>cols dls. locate_table tls = Inr (cols, dls)"
proof (cases "find_header_idx (py_enumerate 0 tls)")
  case None
  from locate_table_None[OF None] show ?thesis by blast
next
  case (Some h)
  from locate_table_Some[OF Some] show ?thesis by blast
qed

lemma section_end_eq:
  assumes "0 \<le> idx"
  shows "section_end t ms idx =
           Inr (if idx + 1 < int (length ms) then m_start (ms ! nat (idx + 1)) else length t)"
proof (cases "idx + 1 < int (length ms)")
  case True
  with assms have "py_index ms (idx + 1) = Inr (ms ! nat (idx + 1))"
    by (intro py_index_in_range) auto
  with True show ?thesis by (simp add: section_end_def bind_res_def)
next
  case False
  then show ?thesis by (simp add: section_end_def)
qed

lemma row_payload_inv:
  assumes "row_payload region cols line = Inr (Some p)"
  shows "\<exists>c0 sc scen ec dc src ttl summ.
           safe_get (split_cells line) (Some 0) = Inr c0 \<and> index_cell_re_match c0 \<and>
           safe_get (split_cells line) (sector_idx cols) = Inr sc \<and>
           safe_get (split_cells line) (scenario_idx cols) = Inr scen \<and> scen \<noteq> [] \<and>
           safe_get (split_cells line) (effect_idx cols) = Inr ec \<and>
           safe_get (split_cells line) (drivers_idx cols) = Inr dc \<and>
           safe_get (split_cells line) (source_idx cols) = Inr src \<and>
           extract_title_and_summary scen = Inr (ttl, summ) \<and>
           p = \<lparr>case_of =
                  \<lparr>region_name = region,
                   sector_name = strip_markdown sc,
                   title = ttl,
                   summary = (if summ \<noteq> [] then summ else strip_markdown ec),
                   detailed_notes = (if strip_markdown src \<noteq> [] then Some (strip_markdown src) else None),
                   key_effect_note = strip_markdown ec\<rparr>,
                economic_effects = build_effects ec,
                technology_drivers = (if drivers_idx cols \<noteq> None \<and> dc \<noteq> []
                                      then parse_technology_drivers dc else [])\<rparr>"
proof -
  obtain c0 where c0: "safe_get (split_cells line) (Some 0) = Inr c0"
    using safe_get_total by blast
  obtain c1 where c1: "safe_get (split_cells line) (sector_idx cols) = Inr c1"
    using safe_get_total by blast
  obtain c2 where c2: "safe_get (split_cells line) (scenario_idx cols) = Inr c2"
    using safe_get_total by blast
  obtain c3 where c3: "safe_get (split_cells line) (effect_idx cols) = Inr c3"
    using safe_get_total by blast
  obtain c4 where c4: "safe_get (split_cells line) (drivers_idx cols) = Inr c4"
    using safe_get_total by blast
  obtain c5 where c5: "safe_get (split_cells line) (source_idx cols) = Inr c5"
    using safe_get_total by blast
  obtain ttl summ where ts: "extract_title_and_summary c2 = Inr (ttl, summ)"
    using extract_title_and_summary_total by (metis surj_pair)
  from assms have m: "index_cell_re_match c0"
    by (simp add: row_payload_def Let_def bind_res_def c0 split: if_splits)
  from assms m have ne: "c2 \<noteq> []"
    by (simp add: row_payload_def Let_def bind_res_def c0 c1 c2 c3 c4 c5 split: if_splits)
  from assms m ne have "p = \<lparr>case_of =
                  \<lparr>region_name = region,
                   sector_name = strip_markdown c1,
                   title = ttl,
                   summary = (if summ \<noteq> [] then summ else strip_markdown c3),
                   detailed_notes = (if strip_markdown c5 \<noteq> [] then Some (strip_markdown c5) else None),
                   key_effect_note = strip_markdown c3\<rparr>,
                economic_effects = build_effects c3,
                technology_drivers = (if drivers_idx cols \<noteq> None \<and> c4 \<noteq> []
                                      then parse_technology_drivers c4 else [])\<rparr>"
    by (simp add: row_payload_def Let_def bind_res_def c0 c1 c2 c3 c4 c5 ts)
  with c0 c1 c2 c3 c4 c5 ts m ne show ?thesis by blast
qed

lemma section_step_char:
  assumes "0 \<le> idx"
  shows "\<exists>new. (\<forall>acc. section_step t ms idx m acc = Inr (acc @ new)) \<and>
           (\<forall>p \<in> set new. \<exists>e cols dls line.
               section_end t ms idx = Inr e \<and>
               locate_table (table_lines_of (py_slice t (m_end m) e)) = Inr (cols, dls) \<and>
               line \<in> set dls \<and>
               row_payload (clean_region_name (py_strip (m_group1 m))) cols line = Inr (Some p))"
proof -
  obtain e where e: "section_end t ms idx = Inr e"
    using section_end_eq[OF assms] by blast
  define tls where "tls = table_lines_of (py_slice t (m_end m) e)"
  define region where "region = clean_region_name (py_strip (m_group1 m))"
  obtain cols dls where lt: "locate_table tls = Inr (cols, dls)"
    using locate_table_total by blast
  define f where "f = (\<lambda>line. case row_payload region cols line of Inr r \<Rightarrow> r | Inl e \<Rightarrow> None)"
  show ?thesis
  proof (cases "tls = [] \<or> sector_idx cols = None \<or> scenario_idx cols = None \<or> effect_idx cols = None")
    case True
    then have "\<forall>acc. section_step t ms idx m acc = Inr (acc @ [])"
      using e lt by (auto simp: section_step_def Let_def bind_res_def tls_def[symmetric])
    then show ?thesis by (intro exI[of _ "[]"]) simp
  next
    case False
    then have st: "\<forall>acc. section_step t ms idx m acc = Inr (acc @ List.map_filter f dls)"
      using e lt
      by (auto simp: section_step_def Let_def bind_res_def tls_def[symmetric]
          region_def[symmetric] rows_loop_eq f_def)
    have "\<exists>line. line \<in> set dls \<and> row_payload region cols line = Inr (Some p)"
      if "p \<in> set (List.map_filter f dls)" for p
    proof -
      from that obtain line where l: "line \<in> set dls" and fl: "f line = Some p"
        by (auto simp: List.map_filter_def)
      from fl have "row_payload region cols line = Inr (Some p)"
        by (auto simp: f_def split: sum.splits)
      with l show ?thesis by blast
    qed
    then have "\<forall>p \<in> set (List.map_filter f dls). \<exists>e' cols' dls' line.
               section_end t ms idx = Inr e' \<and>
               locate_table (table_lines_of (py_slice t (m_end m) e')) = Inr (cols', dls') \<and>
               line \<in> set dls' \<and>
               row_payload (clean_region_name (py_strip (m_group1 m))) cols' line = Inr (Some p)"
      using e lt unfolding tls_def region_def by blast
    with st show ?thesis by blast
  qed
qed

lemma sections_loop_char:
  assumes "0 \<le> k"
  shows "\<exists>pss. length pss = length rest \<and>
           (\<forall>acc. sections_loop t ms (py_enumerate k rest) acc = Inr (acc @ concat pss)) \<and>
           (\<forall>j < length rest. \<forall>acc. section_step t ms (k + int j) (rest ! j) acc = Inr (acc @ pss ! j))"
  using assms
proof (induction rest arbitrary: k)
  case Nil
  show ?case by (intro exI[of _ "[]"]) simp
next
  case (Cons m rest)
  from section_step_char[OF Cons.prems, of t ms m]
  obtain new where new: "\<forall>acc. section_step t ms k m acc = Inr (acc @ new)" by blast
  from Cons.prems have "0 \<le> k + 1" by simp
  from Cons.IH[OF this] obtain pss where
    len: "length pss = length rest" and
    loop: "\<forall>acc. sections_loop t ms (py_enumerate (k + 1) rest) acc = Inr (acc @ concat pss)" and
    each: "\<forall>j < length rest. \<forall>acc. section_step t ms (k + 1 + int j) (rest ! j) acc = Inr (acc @ pss ! j)"
    by blast
  have a: "length (new # pss) = length (m # rest)" using len by simp
  have b: "\<forall>acc. sections_loop t ms (py_enumerate k (m # rest)) acc = Inr (acc @ concat (new # pss))"
    using new loop by (simp add: bind_res_def)
  have c: "\<forall>j < length (m # rest). \<forall>acc.
             section_step t ms (k + int j) ((m # rest) ! j) acc = Inr (acc @ (new # pss) ! j)"
  proof (intro allI impI)
    fix j acc
    assume j: "j < length (m # rest)"
    show "section_step t ms (k + int j) ((m # rest) ! j) acc = Inr (acc @ (new # pss) ! j)"
    proof (cases j)
      case 0
      then show ?thesis using new by simp
    next
      case (Suc j')
      with j have "j' < length rest" by simp
      with each have "section_step t ms (k + 1 + int j') (rest ! j') acc = Inr (acc @ pss ! j')"
        by blast
      moreover have "k + int j = k + 1 + int j'" using Suc by simp
      ultimately show ?thesis using Suc by (simp add: add.assoc)
    qed
  qed
  from a b c show ?case by blast
qed

lemma parse_agent_output_char:
  "\<exists>pss. length pss = length (section_header_finditer 0 True t) \<and>
         parse_agent_output t = Inr (concat pss) \<and>
         (\<forall>j < length (section_header_finditer 0 True t).
            section_step t (section_header_finditer 0 True t) (int j)
              (section_header_finditer 0 True t ! j) [] = Inr (pss ! j))"
proof -
  define ms where "ms = section_header_finditer 0 True t"
  from sections_loop_char[where k = 0 and rest = ms and t = t and ms = ms] obtain pss where
    len: "length pss = length ms" and
    loop: "\<forall>acc. sections_loop t ms (py_enumerate 0 ms) acc = Inr (acc @ concat pss)" and
    each: "\<forall>j < length ms. \<forall>acc. section_step t ms (0 + int j) (ms ! j) acc = Inr (acc @ pss ! j)"
    by auto
  from loop have "parse_agent_output t = Inr (concat pss)"
    by (simp add: parse_agent_output_def ms_def[symmetric])
  moreover from each have "\<forall>j < length ms. section_step t ms (int j) (ms ! j) [] = Inr (pss ! j)"
    by (metis add_0 append_Nil)
  ultimately show ?thesis using len unfolding ms_def by blast
qed

lemma parse_provenance:
  assumes "parse_agent_output t = Inr ps" and "p \<in> set ps"
  shows "\<exists>j e cols dls line.
           j < length (section_header_finditer 0 True t) \<and>
           section_end t (section_header_finditer 0 True t) (int j) = Inr e \<and>
           locate_table (table_lines_of
               (py_slice t (m_end (section_header_finditer 0 True t ! j)) e)) = Inr (cols, dls) \<and>
           line \<in> set dls \<and>
           row_payload (clean_region_name (py_strip (m_group1 (section_header_finditer 0 True t ! j))))
             cols line = Inr (Some p)"
proof -
  define ms where "ms = section_header_finditer 0 True t"
  from parse_agent_output_char[of t] obtain pss where
    len: "length pss = length ms" and
    out: "parse_agent_output t = Inr (concat pss)" and
    each: "\<forall>j < length ms. section_step t ms (int j) (ms ! j) [] = Inr (pss ! j)"
    unfolding ms_def by blast
  from assms out have "p \<in> set (concat pss)" by simp
  then obtain xs where "xs \<in> set pss" and pxs: "p \<in> set xs" by auto
  then obtain j where j: "j < length pss" and "pss ! j = xs"
    by (auto simp: in_set_conv_nth)
  with pxs have pj: "p \<in> set (pss ! j)" by simp
  from j len have jm: "j < length ms" by simp
  from section_step_char[where idx = "int j" and t = t and ms = ms and m = "ms ! j"] obtain new where
    n1: "\<forall>acc. section_step t ms (int j) (ms ! j) acc = Inr (acc @ new)" and
    n2: "\<forall>p \<in> set new. \<exists>e cols dls line.
               section_end t ms (int j) = Inr e \<and>
               locate_table (table_lines_of (py_slice t (m_end (ms ! j)) e)) = Inr (cols, dls) \<and>
               line \<in> set dls \<and>
               row_payload (clean_region_name (py_strip (m_group1 (ms ! j)))) cols line = Inr (Some p)"
    by auto
  from n1 each jm have "new = pss ! j" by (metis append_Nil sum.inject(2))
  with n2 pj jm show ?thesis unfolding ms_def by blast
qed

lemma py_strip_last: "py_strip s = [] \<or> \<not> is_space (last (py_strip s))"
proof (cases "py_strip s = []")
  case True
  then show ?thesis by simp
next
  case False
  define ys where "ys = dropWhile is_space (rev (dropWhile is_space s))"
  from False have ne: "ys \<noteq> []" by (simp add: py_strip_def ys_def)
  then have "\<not> is_space (hd ys)" unfolding ys_def by (rule hd_dropWhile)
  moreover have "last (py_strip s) = hd ys"
    using ne by (simp add: py_strip_def ys_def[symmetric] last_rev)
  ultimately show ?thesis by simp
qed

lemma safe_get_split_cells_last:
  assumes "safe_get (split_cells line) idx = Inr c"
  shows "c = [] \<or> \<not> is_space (last c)"
proof (cases "c = []")
  case True
  then show ?thesis by simp
next
  case False
  with assms have "c \<in> set (split_cells line)"
    by (auto simp: safe_get_def py_index_def split: option.splits if_splits)
  then obtain x where "c = py_strip x" by (auto simp: split_cells_def)
  with py_strip_last[of x] show ?thesis by simp
qed

lemma index_cell_shape:
  assumes m: "index_cell_re_match c" and l: "c = [] \<or> \<not> is_space (last c)"
  shows "\<exists>d1 d2. d1 \<noteq> [] \<and> list_all is_digit d1 \<and> list_all is_digit d2 \<and>
           (c = d1 \<or> (d2 \<noteq> [] \<and> c = d1 @ [46] @ d2))"
proof -
  define d1 where "d1 = takeWhile is_digit c"
  define r where "r = dropWhile is_digit c"
  have c: "c = d1 @ r" by (simp add: d1_def r_def)
  have d1: "d1 \<noteq> []" "list_all is_digit d1"
    using m by (auto simp: index_cell_re_match_def Let_def d1_def list_all_iff dest: set_takeWhileD)
  have nl: "is_space 10" by (simp add: is_space_def)
  have rl: "r \<noteq> [] \<Longrightarrow> \<not> is_space (last r)" using l c d1 by auto
  from m have "at_dollar r \<or> (\<exists>r'. r = 46 # r' \<and> takeWhile is_digit r' \<noteq> [] \<and> at_dollar (dropWhile is_digit r'))"
    by (auto simp: index_cell_re_match_def Let_def r_def[symmetric] split: list.splits)
  then show ?thesis
  proof
    assume "at_dollar r"
    with rl nl have "r = []" by (auto simp: at_dollar_def)
    with c d1 show ?thesis by (intro exI[of _ d1] exI[of _ "[]"]) simp
  next
    assume "\<exists>r'. r = 46 # r' \<and> takeWhile is_digit r' \<noteq> [] \<and> at_dollar (dropWhile is_digit r')"
    then obtain r' where r: "r = 46 # r'" and t: "takeWhile is_digit r' \<noteq> []"
      and a: "at_dollar (dropWhile is_digit r')" by blast
    define d2 where "d2 = takeWhile is_digit r'"
    define r2 where "r2 = dropWhile is_digit r'"
    have r': "r' = d2 @ r2" by (simp add: d2_def r2_def)
    have "r2 = []"
    proof (rule ccontr)
      assume ne: "r2 \<noteq> []"
      from a have "r2 = [] \<or> r2 = [10]" unfolding at_dollar_def r2_def .
      with ne have "r2 = [10]" by blast
      then have "last r = 10" using r r' by simp
      with rl r nl show False by simp
    qed
    with r' have "r' = d2" by simp
    moreover have "list_all is_digit d2" by (auto simp: d2_def list_all_iff dest: set_takeWhileD)
    moreover have "d2 \<noteq> []" using t by (simp add: d2_def)
    ultimately show ?thesis using c r d1 by (intro exI[of _ d1] exI[of _ d2]) simp
  qed
qed

lemma finditer_positions:
  "(\<forall>m \<in> set (section_header_finditer pos bol s). pos \<le> m_start m \<and> m_start m < m_end m) \<and>
   sorted_wrt (\<lambda>a b. m_end a \<le> m_start b) (section_header_finditer pos bol s)"
proof (induction pos bol s rule: section_header_finditer.induct)
  case (1 pos bol)
  then show ?case by simp
next
  case (2 pos bol c cs)
  show ?case
  proof (cases "if bol then section_header_match (c # cs) else None")
    case None
    with 2(1)[OF None] show ?thesis by auto
  next
    case (Some r)
    obtain n g where r: "r = (n, g)" by (cases r)
    from Some r have "section_header_match (c # cs) = Some (n, g)" by (auto split: if_splits)
    then have n: "0 < n"
      by (auto simp: section_header_match_def Let_def split: if_splits option.splits)
    from 2(2)[OF Some r[symmetric]] have
      ih1: "\<forall>m \<in> set (section_header_finditer (pos + n) False (drop n (c # cs))). pos + n \<le> m_start m \<and> m_start m < m_end m"
      and ih2: "sorted_wrt (\<lambda>a b. m_end a \<le> m_start b) (section_header_finditer (pos + n) False (drop n (c # cs)))"
      by auto
    have eq: "section_header_finditer pos bol (c # cs) =
            \<lparr>m_start = pos, m_end = pos + n, m_group1 = g\<rparr>
              # section_header_finditer (pos + n) False (drop n (c # cs))"
      using Some r by simp
    show ?thesis unfolding eq using ih1 ih2 n by auto
  qed
qed

lemma row_payload_region:
  "row_payload region cols line = Inr (Some p) \<Longrightarrow> region_name (case_of p) = region"
  by (drule row_payload_inv) auto

lemma driver_split_from_subseq: "subseq (concat (driver_split_from cur s)) (cur @ s)"
proof (induction cur s rule: driver_split_from.induct)
  case (1 cur)
  then show ?case by simp
next
  case (2 cur c cs)
  show ?case
  proof (cases "driver_delim_match (c # cs)")
    case None
    with 2(1)[OF None] show ?thesis by simp
  next
    case (Some n)
    from 2(2)[OF Some] have "subseq (concat (driver_split_from [] (drop n (c # cs)))) (drop n (c # cs))"
      by simp
    moreover have "subseq (drop n (c # cs)) (c # cs)"
      by (metis append_take_drop_id subseq_rev_drop_many subseq_order.order_refl
          list_emb_append2)
    ultimately have "subseq (concat (driver_split_from [] (drop n (c # cs)))) (c # cs)"
      by (rule subseq_order.order_trans)
    then have "subseq (cur @ concat (driver_split_from [] (drop n (c # cs)))) (cur @ c # cs)"
      by (simp add: subseq_append')
    with Some show ?thesis by simp
  qed
qed

text \<open>
  The payloads are those of the matches of the heading pattern, one match after the
  other, and each carries the cleaned group 1 of its match as region name.
\<close>

lemma payloads_concatenate_in_match_order:
  "\<exists>pss. length pss = length (section_header_finditer 0 True t) \<and>
         parse_agent_output t = Inr (concat pss) \<and>
         sorted_wrt (\<lambda>a b. m_end a \<le> m_start b) (section_header_finditer 0 True t) \<and>
         (\<forall>j < length (section_header_finditer 0 True t).
            section_step t (section_header_finditer 0 True t) (int j)
              (section_header_finditer 0 True t ! j) [] = Inr (pss ! j) \<and>
            (\<forall>p \<in> set (pss ! j).
               region_name (case_of p) =
                 clean_region_name (py_strip (m_group1 (section_header_finditer 0 True t ! j)))))"
proof -
  define ms where "ms = section_header_finditer 0 True t"
  from parse_agent_output_char[of t] obtain pss where
    len: "length pss = length ms" and
    out: "parse_agent_output t = Inr (concat pss)" and
    each: "\<forall>j < length ms. section_step t ms (int j) (ms ! j) [] = Inr (pss ! j)"
    unfolding ms_def by blast
  have srt: "sorted_wrt (\<lambda>a b. m_end a \<le> m_start b) ms"
    unfolding ms_def using finditer_positions by blast
  have reg: "region_name (case_of p) = clean_region_name (py_strip (m_group1 (ms ! j)))"
    if j: "j < length ms" and p: "p \<in> set (pss ! j)" for j p
  proof -
    from section_step_char[where idx = "int j" and t = t and ms = ms and m = "ms ! j"]
    obtain new where
      n1: "\<forall>acc. section_step t ms (int j) (ms ! j) acc = Inr (acc @ new)" and
      n2: "\<forall>p \<in> set new. \<exists>e cols dls line.
               section_end t ms (int j) = Inr e \<and>
               locate_table (table_lines_of (py_slice t (m_end (ms ! j)) e)) = Inr (cols, dls) \<and>
               line \<in> set dls \<and>
               row_payload (clean_region_name (py_strip (m_group1 (ms ! j)))) cols line = Inr (Some p)"
      by auto
    from n1 each j have "new = pss ! j" by (metis append_Nil sum.inject(2))
    with n2 p obtain cols line where
      "row_payload (clean_region_name (py_strip (m_group1 (ms ! j)))) cols line = Inr (Some p)"
      by blast
    then show ?thesis by (rule row_payload_region)
  qed
  from len out srt each reg show ?thesis unfolding ms_def by blast
qed

text \<open>
  A payload lacks both a title and a summary only when the extraction from its scenario
  cell gave neither and its effect note is empty.
\<close>

lemma title_or_summary_unless_extraction_empty:
  assumes "parse_agent_output t = Inr ps" and "p \<in> set ps"
  shows "title (case_of p) \<noteq> [] \<or> summary (case_of p) \<noteq> [] \<or>
         (\<exists>region cols line scen.
            row_payload region cols line = Inr (Some p) \<and>
            safe_get (split_cells line) (scenario_idx cols) = Inr scen \<and> scen \<noteq> [] \<and>
            extract_title_and_summary scen = Inr ([], []) \<and>
            key_effect_note (case_of p) = [])"
proof -
  from parse_provenance[OF assms] obtain region cols line where
    r: "row_payload region cols line = Inr (Some p)" by blast
  from row_payload_inv[OF r] obtain scen ec ttl summ where
    s: "safe_get (split_cells line) (scenario_idx cols) = Inr scen" "scen \<noteq> []" and
    x: "extract_title_and_summary scen = Inr (ttl, summ)" and
    t: "title (case_of p) = ttl" and
    u: "summary (case_of p) = (if summ \<noteq> [] then summ else strip_markdown ec)" and
    k: "key_effect_note (case_of p) = strip_markdown ec"
    by auto
  show ?thesis
  proof (cases "ttl = [] \<and> summ = [] \<and> strip_markdown ec = []")
    case True
    with x k have "extract_title_and_summary scen = Inr ([], [])"
      and "key_effect_note (case_of p) = []" by simp_all
    with r s show ?thesis by blast
  next
    case False
    with t u show ?thesis by auto
  qed
qed

text \<open>
  The split of a drivers cell: the pieces stand in the cell from left to right, each
  followed by the delimiter that ended it, and a list of plain names joined by a comma
  and a space is split into these names again.
\<close>

lemma of_ascii_space: "of_ascii '' '' = [32]"
  by (simp add: of_ascii_def)

lemma of_ascii_comma_space: "of_ascii '', '' = [44, 32]"
  by (simp add: of_ascii_def)

lemma of_ascii_space_dot: "of_ascii '' .'' = [32, 46]"
  by (simp add: of_ascii_def)

lemma driver_delim_match_plain:
  assumes "\<not> is_space c" "c \<noteq> 43" "c \<noteq> 44" "c \<noteq> 59" "c \<noteq> 47"
  shows "driver_delim_match (c # cs) = None"
  using assms by (simp add: driver_delim_match_def)

lemma driver_split_from_plain:
  assumes "\<forall>c \<in> set d. \<not> is_space c \<and> c \<noteq> 43 \<and> c \<noteq> 44 \<and> c \<noteq> 59 \<and> c \<noteq> 47"
  shows "driver_split_from cur (d @ rest) = driver_split_from (cur @ d) rest"
  using assms
proof (induction d arbitrary: cur)
  case Nil
  then show ?case by simp
next
  case (Cons c d)
  then have "driver_delim_match (c # d @ rest) = None"
    by (intro driver_delim_match_plain) auto
  with Cons show ?case by simp
qed

lemma driver_delim_match_comma_space:
  assumes "\<not> is_space c"
  shows "driver_delim_match (44 # 32 # c # cs) = Some 2"
  using assms by (simp add: driver_delim_match_def is_space_def)

lemma py_join_Cons: "\<exists>r. py_join sep (y # ys) = y @ r"
  by (cases ys) auto

lemma driver_split_from_join:
  assumes "\<forall>d \<in> set ds. d \<noteq> [] \<and>
             (\<forall>c \<in> set d. \<not> is_space c \<and> c \<noteq> 43 \<and> c \<noteq> 44 \<and> c \<noteq> 59 \<and> c \<noteq> 47)"
    and "ds \<noteq> []"
  shows "driver_split_from [] (py_join [44, 32] ds) = ds"
  using assms
proof (induction "[44, 32] :: int list" ds rule: py_join.induct)
  case 1
  then show ?case by simp
next
  case (2 x)
  then have "driver_split_from [] (x @ []) = driver_split_from ([] @ x) []"
    by (intro driver_split_from_plain) simp
  then show ?case by simp
next
  case (3 x y ys)
  from 3(2) have px: "\<forall>c \<in> set x. \<not> is_space c \<and> c \<noteq> 43 \<and> c \<noteq> 44 \<and> c \<noteq> 59 \<and> c \<noteq> 47"
    by simp
  from 3(2) have ny: "y \<noteq> []" and sy: "\<not> is_space (hd y)" by (cases y; simp)+
  obtain r where r: "py_join [44, 32] (y # ys) = y @ r" using py_join_Cons by blast
  obtain c y' where y: "y = c # y'" using ny by (cases y) auto
  with sy have c: "\<not> is_space c" by simp
  have ih: "driver_split_from [] (py_join [44, 32] (y # ys)) = y # ys"
    using 3 by simp
  have "driver_split_from [] (py_join [44, 32] (x # y # ys)) =
          driver_split_from ([] @ x) ([44, 32] @ py_join [44, 32] (y # ys))"
    using driver_split_from_plain[OF px, of "[]" "[44, 32] @ py_join [44, 32] (y # ys)"] by simp
  also have "\<dots> = driver_split_from x (44 # 32 # c # y' @ r)" using r y by simp
  also have "\<dots> = x # driver_split_from [] (c # y' @ r)"
    using driver_delim_match_comma_space[OF c, of "y' @ r"] by simp
  also have "\<dots> = x # y # ys" using ih r y by simp
  finally show ?case .
qed

lemma py_replace_absent: "old \<noteq> [] \<Longrightarrow> hd old \<notin> set s \<Longrightarrow> py_replace old new s = s"
proof (induction old new s rule: py_replace.induct)
  case (1 old new)
  then show ?case by simp
next
  case (2 old new c cs)
  then have "\<not> startswith (c # cs) old"
    by (cases old) (auto simp: startswith_def)
  with 2 show ?case by simp
qed

lemma sub_space_runs_plain: "\<forall>c \<in> set d. \<not> is_space c \<Longrightarrow> sub_space_runs d = d"
  by (induction d) auto

lemma strip_chars_plain:
  assumes "d \<noteq> []" "hd d \<notin> set chars" "last d \<notin> set chars"
  shows "strip_chars chars d = d"
proof -
  from assms have a: "dropWhile (\<lambda>c. c \<in> set chars) d = d" by (cases d) auto
  from assms have "rev d \<noteq> []" "hd (rev d) \<notin> set chars" by (simp_all add: hd_rev)
  then have "dropWhile (\<lambda>c. c \<in> set chars) (rev d) = rev d" by (cases "rev d") auto
  with a show ?thesis by (simp add: strip_chars_def)
qed

lemma py_join_set: "set (py_join sep ds) \<subseteq> set sep \<union> \<Union> (set ` set ds)"
  by (induction sep ds rule: py_join.induct) auto

lemma py_join_nonempty: "ds \<noteq> [] \<Longrightarrow> \<forall>d \<in> set ds. d \<noteq> [] \<Longrightarrow> py_join sep ds \<noteq> []"
  by (induction sep ds rule: py_join.induct) auto

lemma parse_technology_drivers_join:
  assumes "\<forall>d \<in> set ds. d \<noteq> [] \<and> hd d \<noteq> 46 \<and> last d \<noteq> 46 \<and>
             (\<forall>c \<in> set d. \<not> is_space c \<and> c \<noteq> 43 \<and> c \<noteq> 44 \<and> c \<noteq> 59 \<and> c \<noteq> 47)"
  shows "parse_technology_drivers (py_join (of_ascii '', '') ds) = ds"
proof (cases "ds = []")
  case True
  then show ?thesis by (simp add: parse_technology_drivers_def)
next
  case False
  let ?cell = "py_join [44, 32] ds"
  have ne: "?cell \<noteq> []" using False assms by (intro py_join_nonempty) auto
  have sp: "is_space 8239" by (simp add: is_space_def)
  have "8239 \<notin> set ?cell"
  proof
    assume "8239 \<in> set ?cell"
    with py_join_set[of "[44, 32]" ds] obtain d where "d \<in> set ds" "8239 \<in> set d" by auto
    with assms sp show False by blast
  qed
  then have norm: "py_replace [8239] [32] ?cell = ?cell"
    by (intro py_replace_absent) simp_all
  have split: "driver_split_from [] ?cell = ds"
    using assms False by (intro driver_split_from_join) auto
  have clean: "strip_chars [32, 46] (sub_space_runs d) = d" if "d \<in> set ds" for d
  proof -
    from that assms have d: "d \<noteq> []" "hd d \<noteq> 46" "last d \<noteq> 46" "\<forall>c \<in> set d. \<not> is_space c"
      by auto
    have s32: "is_space 32" by (simp add: is_space_def)
    from d have "hd d \<in> set d" "last d \<in> set d" by simp_all
    with d s32 have "hd d \<noteq> 32" "last d \<noteq> 32" by metis+
    with d have "strip_chars [32, 46] d = d" by (intro strip_chars_plain) auto
    with d show ?thesis by (simp add: sub_space_runs_plain)
  qed
  then have m: "map (\<lambda>item. strip_chars [32, 46] (sub_space_runs item)) ds = ds"
    by (simp add: map_idI)
  have f: "filter (\<lambda>c. c \<noteq> []) ds = ds" using assms by (simp add: filter_id_conv)
  show ?thesis
    using ne norm split m f
    by (simp add: parse_technology_drivers_def Let_def of_ascii_space of_ascii_comma_space
        of_ascii_space_dot driver_split_re_split_def)
qed

lemma takeWhile_space_append:
  "s = takeWhile is_space s @ drop (length (takeWhile is_space s)) s"
  by (simp add: dropWhile_eq_drop[symmetric])

lemma driver_delim_match_take:
  assumes "driver_delim_match s = Some m"
  shows "0 < m \<and> m \<le> length s \<and>
         (\<forall>c \<in> set (take m s). is_space c \<or> c = 43 \<or> c = 44 \<or> c = 59 \<or> c = 47 \<or>
            c = 1080 \<or> c = 1048 \<or> c = 97 \<or> c = 65 \<or> c = 110 \<or> c = 78 \<or> c = 100 \<or> c = 68)"
proof -
  define w where "w = takeWhile is_space s"
  define t where "t = drop (length w) s"
  have s: "s = w @ t" unfolding w_def t_def by (rule takeWhile_space_append)
  have w: "\<forall>c \<in> set w. is_space c" by (auto simp: w_def dest: set_takeWhileD)
  from assms obtain c t' where t: "t = c # t'"
    by (cases t) (auto simp: driver_delim_match_def Let_def w_def[symmetric] t_def[symmetric])
  let ?ok = "\<lambda>c. is_space c \<or> c = 43 \<or> c = 44 \<or> c = 59 \<or> c = 47 \<or>
            c = 1080 \<or> c = 1048 \<or> c = 97 \<or> c = 65 \<or> c = 110 \<or> c = 78 \<or> c = 100 \<or> c = (68::int)"
  have tw: "\<forall>c \<in> set (takeWhile is_space u). ?ok c" for u
    by (auto dest: set_takeWhileD)
  have wok: "\<forall>c \<in> set w. ?ok c" using w by blast
  have len_tw: "length (takeWhile is_space u) \<le> length u" for u :: "int list"
    by (rule length_takeWhile_le)
  consider
      (single) "m = length w + 1 + length (takeWhile is_space t')"
        "c = 43 \<or> c = 44 \<or> c = 59 \<or> c = 47"
    | (wordi) u where "t' = 32 # u" "c = 1080 \<or> c = 1048"
        "m = length w + 2 + length (takeWhile is_space u)"
    | (worda) a b u where "t' = a # b # 32 # u" "c = 97 \<or> c = 65" "a = 110 \<or> a = 78"
        "b = 100 \<or> b = 68" "m = length w + 4 + length (takeWhile is_space u)"
  proof -
    from assms t have big:
      "(if c = 43 \<or> c = 44 \<or> c = 59 \<or> c = 47
        then Some (length w + 1 + length (takeWhile is_space t'))
        else if 1 \<le> length w \<and> s ! (length w - 1) = 32
        then (if (c = 1080 \<or> c = 1048) \<and> startswith t' [32]
              then Some (length w + 2 + length (takeWhile is_space (drop 1 t')))
              else if (c = 97 \<or> c = 65) \<and> 3 \<le> length t' \<and>
                      (t' ! 0 = 110 \<or> t' ! 0 = 78) \<and> (t' ! 1 = 100 \<or> t' ! 1 = 68) \<and>
                      t' ! 2 = 32
              then Some (length w + 4 + length (takeWhile is_space (drop 3 t')))
              else None)
        else None) = Some m"
      by (simp add: driver_delim_match_def Let_def w_def[symmetric] t_def[symmetric])
    show ?thesis
    proof (cases "c = 43 \<or> c = 44 \<or> c = 59 \<or> c = 47")
      case True
      with big show ?thesis using single by simp
    next
      case False
      note nd = False
      show ?thesis
      proof (cases "(c = 1080 \<or> c = 1048) \<and> startswith t' [32]")
        case True
        then obtain u where u: "t' = 32 # u" by (cases t') (auto simp: startswith_def)
        with True nd big show ?thesis using wordi[of u]
          by (auto split: if_splits)
      next
        case False
        with nd big have
          h: "c = 97 \<or> c = 65" "3 \<le> length t'" "t' ! 0 = 110 \<or> t' ! 0 = 78"
             "t' ! 1 = 100 \<or> t' ! 1 = 68" "t' ! 2 = 32"
             "m = length w + 4 + length (takeWhile is_space (drop 3 t'))"
          by (auto split: if_splits)
        from h(2) obtain a b d u where u: "t' = a # b # d # u"
          by (cases t'; cases "tl t'"; cases "tl (tl t')") auto
        with h show ?thesis using worda[of a b u] by auto
      qed
    qed
  qed
  then show ?thesis
  proof cases
    case single
    have "take m s = w @ c # takeWhile is_space t'"
      using single(1) s t by (simp add: takeWhile_eq_take[symmetric])
    moreover have "m \<le> length s" using single(1) s t len_tw[of t'] by simp
    ultimately show ?thesis using single wok tw[of t'] by auto
  next
    case (wordi u)
    have "take m s = w @ c # 32 # takeWhile is_space u"
      using wordi s t by (simp add: takeWhile_eq_take[symmetric])
    moreover have "m \<le> length s" using wordi s t len_tw[of u] by simp
    moreover have "is_space 32" by (simp add: is_space_def)
    ultimately show ?thesis using wordi wok tw[of u] by auto
  next
    case (worda a b u)
    have "take m s = w @ c # a # b # 32 # takeWhile is_space u"
      using worda s t by (simp add: takeWhile_eq_take[symmetric] eval_nat_numeral)
    moreover have "m \<le> length s" using worda s t len_tw[of u] by simp
    moreover have "is_space 32" by (simp add: is_space_def)
    ultimately show ?thesis using worda wok tw[of u] by auto
  qed
qed

lemma driver_delim_match_None_char:
  "driver_delim_match (c # cs) = None \<Longrightarrow> c \<noteq> 43 \<and> c \<noteq> 44 \<and> c \<noteq> 59 \<and> c \<noteq> 47"
  by (auto simp: driver_delim_match_def is_space_def)

lemma driver_split_from_segments:
  assumes "\<forall>c \<in> set cur. c \<noteq> 43 \<and> c \<noteq> 44 \<and> c \<noteq> 59 \<and> c \<noteq> 47"
  shows "\<exists>segs lastp.
           driver_split_from cur s = map fst segs @ [lastp] \<and>
           cur @ s = concat (map (\<lambda>(p, d). p @ d) segs) @ lastp \<and>
           (\<forall>(p, d) \<in> set segs. d \<noteq> [] \<and>
              (\<forall>c \<in> set d. is_space c \<or> c = 43 \<or> c = 44 \<or> c = 59 \<or> c = 47 \<or>
                 c = 1080 \<or> c = 1048 \<or> c = 97 \<or> c = 65 \<or> c = 110 \<or> c = 78 \<or> c = 100 \<or> c = 68) \<and>
              (\<forall>c \<in> set p. c \<noteq> 43 \<and> c \<noteq> 44 \<and> c \<noteq> 59 \<and> c \<noteq> 47)) \<and>
           (\<forall>c \<in> set lastp. c \<noteq> 43 \<and> c \<noteq> 44 \<and> c \<noteq> 59 \<and> c \<noteq> 47)"
  using assms
proof (induction cur s rule: driver_split_from.induct)
  case (1 cur)
  then show ?case by (intro exI[of _ "[]"] exI[of _ cur]) simp
next
  case (2 cur c cs)
  show ?case
  proof (cases "driver_delim_match (c # cs)")
    case None
    from driver_delim_match_None_char[OF None] 2(3)
    have "\<forall>x \<in> set (cur @ [c]). x \<noteq> 43 \<and> x \<noteq> 44 \<and> x \<noteq> 59 \<and> x \<noteq> 47" by auto
    from 2(1)[OF None this] None show ?thesis by simp
  next
    case (Some m)
    from driver_delim_match_take[OF Some] have m: "0 < m" "m \<le> length (c # cs)"
      and dc: "\<forall>x \<in> set (take m (c # cs)). is_space x \<or> x = 43 \<or> x = 44 \<or> x = 59 \<or> x = 47 \<or>
            x = 1080 \<or> x = 1048 \<or> x = 97 \<or> x = 65 \<or> x = 110 \<or> x = 78 \<or> x = 100 \<or> x = 68"
      by blast+
    from 2(2)[OF Some] obtain segs lastp where
      a: "driver_split_from [] (drop m (c # cs)) = map fst segs @ [lastp]" and
      b: "[] @ drop m (c # cs) = concat (map (\<lambda>(p, d). p @ d) segs) @ lastp" and
      c: "\<forall>(p, d) \<in> set segs. d \<noteq> [] \<and>
              (\<forall>c \<in> set d. is_space c \<or> c = 43 \<or> c = 44 \<or> c = 59 \<or> c = 47 \<or>
                 c = 1080 \<or> c = 1048 \<or> c = 97 \<or> c = 65 \<or> c = 110 \<or> c = 78 \<or> c = 100 \<or> c = 68) \<and>
              (\<forall>c \<in> set p. c \<noteq> 43 \<and> c \<noteq> 44 \<and> c \<noteq> 59 \<and> c \<noteq> 47)" and
      d: "\<forall>c \<in> set lastp. c \<noteq> 43 \<and> c \<noteq> 44 \<and> c \<noteq> 59 \<and> c \<noteq> 47"
      by auto
    let ?segs = "(cur, take m (c # cs)) # segs"
    have ne: "take m (c # cs) \<noteq> []" using m by auto
    have e1: "driver_split_from cur (c # cs) = map fst ?segs @ [lastp]"
      using Some a by simp
    have "cur @ c # cs = cur @ take m (c # cs) @ drop m (c # cs)" by simp
    also have "\<dots> = concat (map (\<lambda>(p, d). p @ d) ?segs) @ lastp" using b by simp
    finally have e2: "cur @ c # cs = concat (map (\<lambda>(p, d). p @ d) ?segs) @ lastp" .
    have e3: "\<forall>(p, d) \<in> set ?segs. d \<noteq> [] \<and>
              (\<forall>c \<in> set d. is_space c \<or> c = 43 \<or> c = 44 \<or> c = 59 \<or> c = 47 \<or>
                 c = 1080 \<or> c = 1048 \<or> c = 97 \<or> c = 65 \<or> c = 110 \<or> c = 78 \<or> c = 100 \<or> c = 68) \<and>
              (\<forall>c \<in> set p. c \<noteq> 43 \<and> c \<noteq> 44 \<and> c \<noteq> 59 \<and> c \<noteq> 47)"
      using c ne dc 2(3) by simp
    from e1 e2 e3 d show ?thesis by blast
  qed
qed

section \<open>Properties of the parser\<close>

text \<open>
  C1: for every input string \<^verbatim>\<open>parse_agent_output\<close> returns a list of payloads and raises
  nothing. The loops only ever append: whatever the lines of a table are, the loop over
  them returns the payloads collected before it followed by at most one payload per line,
  and a turn of the loop over the sections returns the payloads collected before it
  followed by those of the section, so a malformed row or section costs its own payloads
  and no others.
\<close>

theorem parse_agent_output_never_raises:
  "(\<exists>ps. parse_agent_output agent_output = Inr ps) \<and>
   (\<exists>new. rows_loop region cols lines acc = Inr (acc @ new) \<and> length new \<le> length lines) \<and>
   (\<exists>new. section_step agent_output ms (int j) m acc = Inr (acc @ new))"
proof -
  have "\<exists>ps. parse_agent_output agent_output = Inr ps"
    using parse_agent_output_char[of agent_output] by blast
  moreover have "\<exists>new. rows_loop region cols lines acc = Inr (acc @ new) \<and> length new \<le> length lines"
    unfolding rows_loop_eq by (simp add: List.map_filter_def)
  moreover have "\<exists>new. section_step agent_output ms (int j) m acc = Inr (acc @ new)"
    using section_step_char[where idx = "int j" and t = agent_output and ms = ms and m = m]
    by auto
  ultimately show ?thesis by blast
qed

text \<open>
  C2: every payload returned by \<^verbatim>\<open>parse_agent_output\<close> has a non-empty title or a
  non-empty summary, and a row whose scenario cell yields neither contributes no payload.
  The source tests the scenario cell itself, before the extraction, and nothing after it:
  a cell that holds only emphasis markers is not empty, the extraction gives an empty
  title and an empty summary, and the row is kept. In the report below the effect cell is
  empty as well, and the payload returned has both fields empty.
\<close>

theorem empty_title_and_summary_emitted:
  "parse_agent_output sample_markers_only = Inr [payload_markers_only] \<and>
   title (case_of payload_markers_only) = [] \<and> summary (case_of payload_markers_only) = []"
  by code_simp






text \<open>
  C5: a row whose first cell does not match \<^verbatim>\<open>INDEX_CELL_RE\<close> contributes no payload, and
  every payload of the output comes from a data line of some section whose first cell
  matches it; such a cell is a non-empty run of decimal digits, or two such runs joined
  by a full stop.
\<close>

theorem payload_rows_have_index_cell:
  "(safe_get (split_cells row) (Some 0) = Inr firstcell \<longrightarrow> \<not> index_cell_re_match firstcell \<longrightarrow>
      row_payload reg rcols row = Inr None) \<and>
   (parse_agent_output t = Inr ps \<longrightarrow> p \<in> set ps \<longrightarrow>
      (\<exists>j e cols dls line c d1 d2.
           j < length (section_header_finditer 0 True t) \<and>
           section_end t (section_header_finditer 0 True t) (int j) = Inr e \<and>
           locate_table (table_lines_of
               (py_slice t (m_end (section_header_finditer 0 True t ! j)) e)) = Inr (cols, dls) \<and>
           line \<in> set dls \<and>
           row_payload (clean_region_name (py_strip (m_group1 (section_header_finditer 0 True t ! j))))
             cols line = Inr (Some p) \<and>
           safe_get (split_cells line) (Some 0) = Inr c \<and> index_cell_re_match c \<and>
           d1 \<noteq> [] \<and> list_all is_digit d1 \<and> list_all is_digit d2 \<and>
           (c = d1 \<or> (d2 \<noteq> [] \<and> c = d1 @ [46] @ d2))))"
proof (intro conjI impI)
  assume "safe_get (split_cells row) (Some 0) = Inr firstcell" and "\<not> index_cell_re_match firstcell"
  then show "row_payload reg rcols row = Inr None"
    by (simp add: row_payload_def Let_def bind_res_def)
next
  assume a: "parse_agent_output t = Inr ps" and b: "p \<in> set ps"
  from parse_provenance[OF a b] obtain j e cols dls line where
    prov: "j < length (section_header_finditer 0 True t)"
      "section_end t (section_header_finditer 0 True t) (int j) = Inr e"
      "locate_table (table_lines_of
               (py_slice t (m_end (section_header_finditer 0 True t ! j)) e)) = Inr (cols, dls)"
      "line \<in> set dls"
      "row_payload (clean_region_name (py_strip (m_group1 (section_header_finditer 0 True t ! j))))
             cols line = Inr (Some p)"
    by blast
  from row_payload_inv[OF prov(5)] obtain c where
    c: "safe_get (split_cells line) (Some 0) = Inr c" and m: "index_cell_re_match c"
    by blast
  from index_cell_shape[OF m safe_get_split_cells_last[OF c]] obtain d1 d2 where
    "d1 \<noteq> []" "list_all is_digit d1" "list_all is_digit d2"
    "c = d1 \<or> (d2 \<noteq> [] \<and> c = d1 @ [46] @ d2)" by blast
  with prov c m show "\<exists>j e cols dls line c d1 d2.
           j < length (section_header_finditer 0 True t) \<and>
           section_end t (section_header_finditer 0 True t) (int j) = Inr e \<and>
           locate_table (table_lines_of
               (py_slice t (m_end (section_header_finditer 0 True t ! j)) e)) = Inr (cols, dls) \<and>
           line \<in> set dls \<and>
           row_payload (clean_region_name (py_strip (m_group1 (section_header_finditer 0 True t ! j))))
             cols line = Inr (Some p) \<and>
           safe_get (split_cells line) (Some 0) = Inr c \<and> index_cell_re_match c \<and>
           d1 \<noteq> [] \<and> list_all is_digit d1 \<and> list_all is_digit d2 \<and>
           (c = d1 \<or> (d2 \<noteq> [] \<and> c = d1 @ [46] @ d2))" by blast
qed

theorem payload_rows_have_index_cell_witness:
  "safe_get (split_cells row_note) (Some 0) = Inr [1055, 1088, 1080, 1084, 1077, 1095, 1072, 1085, 1080, 1077] \<and>
   \<not> index_cell_re_match [1055, 1088, 1080, 1084, 1077, 1095, 1072, 1085, 1080, 1077] \<and>
   row_payload (of_ascii ''B'') positional_columns row_note = Inr None \<and>
   parse_agent_output sample_two_regions = Inr [payload_region_a, payload_region_b] \<and>
   (\<exists>j e cols dls line c d1 d2.
           j < length (section_header_finditer 0 True sample_two_regions) \<and>
           section_end sample_two_regions (section_header_finditer 0 True sample_two_regions) (int j) = Inr e \<and>
           locate_table (table_lines_of
               (py_slice sample_two_regions (m_end (section_header_finditer 0 True sample_two_regions ! j)) e)) = Inr (cols, dls) \<and>
           line \<in> set dls \<and>
           row_payload (clean_region_name (py_strip (m_group1 (section_header_finditer 0 True sample_two_regions ! j))))
             cols line = Inr (Some payload_region_b) \<and>
           safe_get (split_cells line) (Some 0) = Inr c \<and> index_cell_re_match c \<and>
           d1 \<noteq> [] \<and> list_all is_digit d1 \<and> list_all is_digit d2 \<and>
           (c = d1 \<or> (d2 \<noteq> [] \<and> c = d1 @ [46] @ d2)))"
proof -
  have a: "safe_get (split_cells row_note) (Some 0) = Inr [1055, 1088, 1080, 1084, 1077, 1095, 1072, 1085, 1080, 1077]"
    by code_simp
  have b: "\<not> index_cell_re_match [1055, 1088, 1080, 1084, 1077, 1095, 1072, 1085, 1080, 1077]"
    by code_simp
  have c: "parse_agent_output sample_two_regions = Inr [payload_region_a, payload_region_b]"
    by code_simp
  have d: "payload_region_b \<in> set [payload_region_a, payload_region_b]" by simp
  note inst = payload_rows_have_index_cell[where row = row_note and firstcell = "[1055, 1088, 1080, 1084, 1077, 1095, 1072, 1085, 1080, 1077]"
      and reg = "of_ascii ''B''" and rcols = positional_columns and t = sample_two_regions
      and ps = "[payload_region_a, payload_region_b]" and p = payload_region_b]
  from inst a b have "row_payload (of_ascii ''B'') positional_columns row_note = Inr None"
    by blast
  moreover from inst c d have "(\<exists>j e cols dls line c d1 d2.
           j < length (section_header_finditer 0 True sample_two_regions) \<and>
           section_end sample_two_regions (section_header_finditer 0 True sample_two_regions) (int j) = Inr e \<and>
           locate_table (table_lines_of
               (py_slice sample_two_regions (m_end (section_header_finditer 0 True sample_two_regions ! j)) e)) = Inr (cols, dls) \<and>
           line \<in> set dls \<and>
           row_payload (clean_region_name (py_strip (m_group1 (section_header_finditer 0 True sample_two_regions ! j))))
             cols line = Inr (Some payload_region_b) \<and>
           safe_get (split_cells line) (Some 0) = Inr c \<and> index_cell_re_match c \<and>
           d1 \<noteq> [] \<and> list_all is_digit d1 \<and> list_all is_digit d2 \<and>
           (c = d1 \<or> (d2 \<noteq> [] \<and> c = d1 @ [46] @ d2)))" by blast
  ultimately show ?thesis using a b c by blast
qed

text \<open>
  C6 (amended): for every payload, \<^verbatim>\<open>technology_drivers\<close> is what
  \<^verbatim>\<open>_parse_technology_drivers\<close> returns for the drivers cell of its row (the empty list when
  no drivers column was resolved or the cell is empty), and it holds no empty name. The
  cell, with its narrow spaces replaced, is a sequence of pieces, each but the last
  followed by a delimiter (whitespace around a plus sign, a comma, a semicolon, a slash
  or one of the two words); no piece holds one of the four delimiter characters, and the
  names returned are the cleaned pieces that are not empty, in the order in which the
  pieces stand in the cell. Nothing removes a name that occurred before: a list of plain
  names joined by a comma and a space comes back as the same list, in the same order and
  with every repetition.
\<close>

theorem technology_drivers_tokens:
  "(row_payload region cols line = Inr (Some q) \<longrightarrow>
    safe_get (split_cells line) (drivers_idx cols) = Inr dc \<longrightarrow>
      technology_drivers q =
        (if drivers_idx cols \<noteq> None \<and> dc \<noteq> [] then parse_technology_drivers dc else [])) \<and>
   [] \<notin> set (parse_technology_drivers cell) \<and>
   subseq (concat (driver_split_re_split s)) s \<and>
   (parse_agent_output t = Inr ps \<longrightarrow> p \<in> set ps \<longrightarrow> [] \<notin> set (technology_drivers p)) \<and>
   (cell \<noteq> [] \<longrightarrow>
      (\<exists>segs lastp.
        py_replace [8239] (of_ascii '' '') (py_replace [8239] (of_ascii '' '') cell) =
          concat (map (\<lambda>(p, d). p @ d) segs) @ lastp \<and>
        (\<forall>(p, d) \<in> set segs. d \<noteq> [] \<and>
           (\<forall>c \<in> set d. is_space c \<or> c = 43 \<or> c = 44 \<or> c = 59 \<or> c = 47 \<or>
                 c = 1080 \<or> c = 1048 \<or> c = 97 \<or> c = 65 \<or> c = 110 \<or> c = 78 \<or> c = 100 \<or> c = 68) \<and>
           (\<forall>c \<in> set p. c \<noteq> 43 \<and> c \<noteq> 44 \<and> c \<noteq> 59 \<and> c \<noteq> 47)) \<and>
        (\<forall>c \<in> set lastp. c \<noteq> 43 \<and> c \<noteq> 44 \<and> c \<noteq> 59 \<and> c \<noteq> 47) \<and>
        parse_technology_drivers cell =
          filter (\<lambda>c. c \<noteq> [])
            (map (\<lambda>item. strip_chars (of_ascii '' .'') (sub_space_runs item)) (map fst segs @ [lastp])))) \<and>
   ((\<forall>d \<in> set ds. d \<noteq> [] \<and> hd d \<noteq> 46 \<and> last d \<noteq> 46 \<and>
       (\<forall>c \<in> set d. \<not> is_space c \<and> c \<noteq> 43 \<and> c \<noteq> 44 \<and> c \<noteq> 59 \<and> c \<noteq> 47)) \<longrightarrow>
      parse_technology_drivers (py_join (of_ascii '', '') ds) = ds)"
proof (intro conjI impI)
  assume r: "row_payload region cols line = Inr (Some q)"
    and e: "safe_get (split_cells line) (drivers_idx cols) = Inr dc"
  from row_payload_inv[OF r] e
  show "technology_drivers q =
        (if drivers_idx cols \<noteq> None \<and> dc \<noteq> [] then parse_technology_drivers dc else [])"
    by auto
next
  show "[] \<notin> set (parse_technology_drivers cell)"
    by (simp add: parse_technology_drivers_def Let_def)
next
  show "subseq (concat (driver_split_re_split s)) s"
    using driver_split_from_subseq[of "[]" s] by (simp add: driver_split_re_split_def)
next
  assume a: "parse_agent_output t = Inr ps" and b: "p \<in> set ps"
  from parse_provenance[OF a b] obtain region cols line where
    "row_payload region cols line = Inr (Some p)" by blast
  from row_payload_inv[OF this]
  show "[] \<notin> set (technology_drivers p)"
    by (auto simp: parse_technology_drivers_def Let_def)
next
  assume ne: "cell \<noteq> []"
  define n where "n = py_replace [8239] (of_ascii '' '') (py_replace [8239] (of_ascii '' '') cell)"
  from driver_split_from_segments[of "[]" n] obtain segs lastp where
    a: "driver_split_from [] n = map fst segs @ [lastp]" and
    b: "[] @ n = concat (map (\<lambda>(p, d). p @ d) segs) @ lastp" and
    c: "\<forall>(p, d) \<in> set segs. d \<noteq> [] \<and>
           (\<forall>c \<in> set d. is_space c \<or> c = 43 \<or> c = 44 \<or> c = 59 \<or> c = 47 \<or>
                 c = 1080 \<or> c = 1048 \<or> c = 97 \<or> c = 65 \<or> c = 110 \<or> c = 78 \<or> c = 100 \<or> c = 68) \<and>
           (\<forall>c \<in> set p. c \<noteq> 43 \<and> c \<noteq> 44 \<and> c \<noteq> 59 \<and> c \<noteq> 47)" and
    d: "\<forall>c \<in> set lastp. c \<noteq> 43 \<and> c \<noteq> 44 \<and> c \<noteq> 59 \<and> c \<noteq> 47"
    by auto
  have "parse_technology_drivers cell =
          filter (\<lambda>c. c \<noteq> [])
            (map (\<lambda>item. strip_chars (of_ascii '' .'') (sub_space_runs item)) (map fst segs @ [lastp]))"
    using ne a by (simp add: parse_technology_drivers_def Let_def driver_split_re_split_def
        n_def[symmetric])
  with b c d show "(\<exists>segs lastp.
      py_replace [8239] (of_ascii '' '') (py_replace [8239] (of_ascii '' '') cell) =
        concat (map (\<lambda>(p, d). p @ d) segs) @ lastp \<and>
      (\<forall>(p, d) \<in> set segs. d \<noteq> [] \<and>
         (\<forall>c \<in> set d. is_space c \<or> c = 43 \<or> c = 44 \<or> c = 59 \<or> c = 47 \<or>
                 c = 1080 \<or> c = 1048 \<or> c = 97 \<or> c = 65 \<or> c = 110 \<or> c = 78 \<or> c = 100 \<or> c = 68) \<and>
         (\<forall>c \<in> set p. c \<noteq> 43 \<and> c \<noteq> 44 \<and> c \<noteq> 59 \<and> c \<noteq> 47)) \<and>
      (\<forall>c \<in> set lastp. c \<noteq> 43 \<and> c \<noteq> 44 \<and> c \<noteq> 59 \<and> c \<noteq> 47) \<and>
      parse_technology_drivers cell =
        filter (\<lambda>c. c \<noteq> [])
          (map (\<lambda>item. strip_chars (of_ascii '' .'') (sub_space_runs item)) (map fst segs @ [lastp])))"
    unfolding n_def by auto
next
  assume "(\<forall>d \<in> set ds. d \<noteq> [] \<and> hd d \<noteq> 46 \<and> last d \<noteq> 46 \<and>
       (\<forall>c \<in> set d. \<not> is_space c \<and> c \<noteq> 43 \<and> c \<noteq> 44 \<and> c \<noteq> 59 \<and> c \<noteq> 47))"
  then show "parse_technology_drivers (py_join (of_ascii '', '') ds) = ds"
    by (rule parse_technology_drivers_join)
qed

text \<open>
  Equal names are kept: the cell \<^verbatim>\<open>LLM, LLM\<close> gives the name twice.
\<close>

theorem duplicate_drivers_kept:
  "parse_agent_output sample_duplicate_drivers = Inr [payload_duplicate_drivers] \<and>
   technology_drivers payload_duplicate_drivers = [of_ascii ''LLM'', of_ascii ''LLM''] \<and>
   \<not> distinct (technology_drivers payload_duplicate_drivers)"
  by code_simp

theorem technology_drivers_tokens_witness:
  "row_payload (of_ascii ''R'') (header_columns row_header) row_three_drivers =
     Inr (Some payload_three_drivers) \<and>
   safe_get (split_cells row_three_drivers) (drivers_idx (header_columns row_header)) =
     Inr (of_ascii ''RAG, LLM, RAG'') \<and>
   technology_drivers payload_three_drivers =
     parse_technology_drivers (of_ascii ''RAG, LLM, RAG'') \<and>
   parse_agent_output sample_three_drivers = Inr [payload_three_drivers] \<and>
   [] \<notin> set (technology_drivers payload_three_drivers) \<and>
   of_ascii ''RAG, LLM, RAG'' \<noteq> [] \<and>
   (\<exists>segs lastp.
     py_replace [8239] (of_ascii '' '') (py_replace [8239] (of_ascii '' '') (of_ascii ''RAG, LLM, RAG'')) =
       concat (map (\<lambda>(p, d). p @ d) segs) @ lastp \<and>
     (\<forall>(p, d) \<in> set segs. d \<noteq> [] \<and>
        (\<forall>c \<in> set d. is_space c \<or> c = 43 \<or> c = 44 \<or> c = 59 \<or> c = 47 \<or>
                 c = 1080 \<or> c = 1048 \<or> c = 97 \<or> c = 65 \<or> c = 110 \<or> c = 78 \<or> c = 100 \<or> c = 68) \<and>
        (\<forall>c \<in> set p. c \<noteq> 43 \<and> c \<noteq> 44 \<and> c \<noteq> 59 \<and> c \<noteq> 47)) \<and>
     (\<forall>c \<in> set lastp. c \<noteq> 43 \<and> c \<noteq> 44 \<and> c \<noteq> 59 \<and> c \<noteq> 47) \<and>
     parse_technology_drivers (of_ascii ''RAG, LLM, RAG'') =
       filter (\<lambda>c. c \<noteq> [])
         (map (\<lambda>item. strip_chars (of_ascii '' .'') (sub_space_runs item)) (map fst segs @ [lastp]))) \<and>
   py_join (of_ascii '', '') [of_ascii ''RAG'', of_ascii ''LLM'', of_ascii ''RAG''] =
     of_ascii ''RAG, LLM, RAG'' \<and>
   parse_technology_drivers (py_join (of_ascii '', '') [of_ascii ''RAG'', of_ascii ''LLM'', of_ascii ''RAG'']) =
     [of_ascii ''RAG'', of_ascii ''LLM'', of_ascii ''RAG''] \<and>
   technology_drivers payload_three_drivers = [of_ascii ''RAG'', of_ascii ''LLM'', of_ascii ''RAG'']"
proof -
  have a: "row_payload (of_ascii ''R'') (header_columns row_header) row_three_drivers =
             Inr (Some payload_three_drivers)"
    by code_simp
  have b: "safe_get (split_cells row_three_drivers) (drivers_idx (header_columns row_header)) =
             Inr (of_ascii ''RAG, LLM, RAG'')"
    by code_simp
  have h: "drivers_idx (header_columns row_header) \<noteq> None" by code_simp
  have ne: "of_ascii ''RAG, LLM, RAG'' \<noteq> []" by code_simp
  have c: "parse_agent_output sample_three_drivers = Inr [payload_three_drivers]"
    by code_simp
  have d: "payload_three_drivers \<in> set [payload_three_drivers]" by simp
  have j: "py_join (of_ascii '', '') [of_ascii ''RAG'', of_ascii ''LLM'', of_ascii ''RAG''] =
             of_ascii ''RAG, LLM, RAG''" by code_simp
  have pl: "\<forall>d \<in> set [of_ascii ''RAG'', of_ascii ''LLM'', of_ascii ''RAG''].
              d \<noteq> [] \<and> hd d \<noteq> 46 \<and> last d \<noteq> 46 \<and>
              (\<forall>c \<in> set d. \<not> is_space c \<and> c \<noteq> 43 \<and> c \<noteq> 44 \<and> c \<noteq> 59 \<and> c \<noteq> 47)"
    by code_simp
  note inst = technology_drivers_tokens[where region = "of_ascii ''R''"
      and cols = "header_columns row_header" and line = row_three_drivers
      and q = payload_three_drivers and dc = "of_ascii ''RAG, LLM, RAG''"
      and t = sample_three_drivers and ps = "[payload_three_drivers]"
      and p = payload_three_drivers and cell = "of_ascii ''RAG, LLM, RAG''"
      and ds = "[of_ascii ''RAG'', of_ascii ''LLM'', of_ascii ''RAG'']"]
  from inst a b have "technology_drivers payload_three_drivers =
        (if drivers_idx (header_columns row_header) \<noteq> None \<and> of_ascii ''RAG, LLM, RAG'' \<noteq> []
         then parse_technology_drivers (of_ascii ''RAG, LLM, RAG'') else [])" by blast
  with h ne have e: "technology_drivers payload_three_drivers =
                       parse_technology_drivers (of_ascii ''RAG, LLM, RAG'')"
    by simp
  from inst c d have f: "[] \<notin> set (technology_drivers payload_three_drivers)" by blast
  from inst ne have g: "(\<exists>segs lastp.
      py_replace [8239] (of_ascii '' '') (py_replace [8239] (of_ascii '' '') (of_ascii ''RAG, LLM, RAG'')) =
        concat (map (\<lambda>(p, d). p @ d) segs) @ lastp \<and>
      (\<forall>(p, d) \<in> set segs. d \<noteq> [] \<and>
         (\<forall>c \<in> set d. is_space c \<or> c = 43 \<or> c = 44 \<or> c = 59 \<or> c = 47 \<or>
                 c = 1080 \<or> c = 1048 \<or> c = 97 \<or> c = 65 \<or> c = 110 \<or> c = 78 \<or> c = 100 \<or> c = 68) \<and>
         (\<forall>c \<in> set p. c \<noteq> 43 \<and> c \<noteq> 44 \<and> c \<noteq> 59 \<and> c \<noteq> 47)) \<and>
      (\<forall>c \<in> set lastp. c \<noteq> 43 \<and> c \<noteq> 44 \<and> c \<noteq> 59 \<and> c \<noteq> 47) \<and>
      parse_technology_drivers (of_ascii ''RAG, LLM, RAG'') =
        filter (\<lambda>c. c \<noteq> [])
          (map (\<lambda>item. strip_chars (of_ascii '' .'') (sub_space_runs item)) (map fst segs @ [lastp])))" by blast
  from inst pl have k: "parse_technology_drivers (py_join (of_ascii '', '') [of_ascii ''RAG'', of_ascii ''LLM'', of_ascii ''RAG'']) =
     [of_ascii ''RAG'', of_ascii ''LLM'', of_ascii ''RAG'']" by blast
  from e j k have l: "technology_drivers payload_three_drivers = [of_ascii ''RAG'', of_ascii ''LLM'', of_ascii ''RAG'']"
    by simp
  from a b e c f ne g j k l show ?thesis by blast
qed

text \<open>
  C7 (amended): the \<^verbatim>\<open>economic_effects\<close> list of a payload has no entry when the effect
  cell, cleaned by \<^verbatim>\<open>_strip_markdown\<close>, is empty, and otherwise exactly one entry, with
  \<^verbatim>\<open>effect_type = "text_note"\<close>, no numeric value, no currency and the cleaned text as its
  note. The cleaned text is the payload's \<^verbatim>\<open>key_effect_note\<close>, so the list is determined by
  that field.
\<close>

theorem economic_effects_follow_cleaned_note:
  "(row_payload region cols line = Inr (Some q) \<longrightarrow>
    safe_get (split_cells line) (effect_idx cols) = Inr ec \<longrightarrow>
      key_effect_note (case_of q) = strip_markdown ec \<and>
      economic_effects q =
        (if strip_markdown ec = [] then []
         else [\<lparr>effect_type = of_ascii ''text_note'', value_numeric = None, currency = None,
                 period_note = strip_markdown ec\<rparr>])) \<and>
   (parse_agent_output t = Inr ps \<longrightarrow> p \<in> set ps \<longrightarrow>
      length (economic_effects p) \<le> 1 \<and>
      economic_effects p =
        (if key_effect_note (case_of p) = [] then []
         else [\<lparr>effect_type = of_ascii ''text_note'', value_numeric = None, currency = None,
                 period_note = key_effect_note (case_of p)\<rparr>]))"
proof (intro conjI impI)
  assume r: "row_payload region cols line = Inr (Some q)"
    and e: "safe_get (split_cells line) (effect_idx cols) = Inr ec"
  from row_payload_inv[OF r] e
  show "key_effect_note (case_of q) = strip_markdown ec"
    and "economic_effects q =
        (if strip_markdown ec = [] then []
         else [\<lparr>effect_type = of_ascii ''text_note'', value_numeric = None, currency = None,
                 period_note = strip_markdown ec\<rparr>])"
    by (auto simp: build_effects_def Let_def)
next
  assume a: "parse_agent_output t = Inr ps" and b: "p \<in> set ps"
  from parse_provenance[OF a b] obtain region cols line where
    "row_payload region cols line = Inr (Some p)" by blast
  from row_payload_inv[OF this]
  show "length (economic_effects p) \<le> 1"
    and "economic_effects p =
        (if key_effect_note (case_of p) = [] then []
         else [\<lparr>effect_type = of_ascii ''text_note'', value_numeric = None, currency = None,
                 period_note = key_effect_note (case_of p)\<rparr>])"
    by (auto simp: build_effects_def Let_def)
qed

text \<open>
  An effect cell that holds only emphasis markers is not empty, and its cleaned text is:
  the payload has no entry.
\<close>

theorem marker_effect_cell_no_entry:
  "parse_agent_output sample_effect_markers = Inr [payload_effect_markers] \<and>
   safe_get (split_cells row_effect_markers) (effect_idx positional_columns) =
     Inr (of_ascii ''**'') \<and>
   of_ascii ''**'' \<noteq> [] \<and>
   economic_effects payload_effect_markers = []"
  by code_simp

theorem economic_effects_follow_cleaned_note_witness:
  "row_payload (of_ascii ''A'') positional_columns row_plain = Inr (Some payload_region_a) \<and>
   safe_get (split_cells row_plain) (effect_idx positional_columns) = Inr (of_ascii ''E'') \<and>
   key_effect_note (case_of payload_region_a) = of_ascii ''E'' \<and>
   economic_effects payload_region_a =
     [\<lparr>effect_type = of_ascii ''text_note'', value_numeric = None, currency = None,
        period_note = of_ascii ''E''\<rparr>] \<and>
   parse_agent_output sample_two_regions = Inr [payload_region_a, payload_region_b] \<and>
   length (economic_effects payload_region_b) \<le> 1"
proof -
  have a: "row_payload (of_ascii ''A'') positional_columns row_plain = Inr (Some payload_region_a)"
    by code_simp
  have b: "safe_get (split_cells row_plain) (effect_idx positional_columns) = Inr (of_ascii ''E'')"
    by code_simp
  have s: "strip_markdown (of_ascii ''E'') = of_ascii ''E''" by code_simp
  have ne: "of_ascii ''E'' \<noteq> []" by code_simp
  have c: "parse_agent_output sample_two_regions = Inr [payload_region_a, payload_region_b]"
    by code_simp
  have d: "payload_region_b \<in> set [payload_region_a, payload_region_b]" by simp
  note inst = economic_effects_follow_cleaned_note[where region = "of_ascii ''A''" and cols = positional_columns
      and line = row_plain and q = payload_region_a and ec = "of_ascii ''E''"
      and t = sample_two_regions and ps = "[payload_region_a, payload_region_b]"
      and p = payload_region_b]
  from inst a b have k: "key_effect_note (case_of payload_region_a) = strip_markdown (of_ascii ''E'')"
    and e: "economic_effects payload_region_a =
        (if strip_markdown (of_ascii ''E'') = [] then []
         else [\<lparr>effect_type = of_ascii ''text_note'', value_numeric = None, currency = None,
                 period_note = strip_markdown (of_ascii ''E'')\<rparr>])" by blast+
  from k s have k': "key_effect_note (case_of payload_region_a) = of_ascii ''E''" by simp
  from e s ne have e': "economic_effects payload_region_a =
     [\<lparr>effect_type = of_ascii ''text_note'', value_numeric = None, currency = None,
        period_note = of_ascii ''E''\<rparr>]" by simp
  from inst c d have "length (economic_effects payload_region_b) \<le> 1" by blast
  with a b k' e' c show ?thesis by blast
qed

text \<open>
  C8: a line is a section header exactly when it is a heading of level two or more, and a
  section's body runs from the end of its heading line to the start of the next heading
  line. The pattern does not keep to one line: \<^verbatim>\<open>\s\<close> matches a line feed, so a line of
  hash signs with nothing after it takes the next line for its heading text. In the report
  below, whose second line is \<^verbatim>\<open>##\<close>, the table row is matched as the text of a second
  heading and the report yields no payload; without that line the same row under the same
  heading yields one.
\<close>

theorem heading_match_swallows_next_line:
  "section_header_finditer 0 True sample_bare_hashes =
     [\<lparr>m_start = 0, m_end = 4, m_group1 = of_ascii ''A''\<rparr>,
      \<lparr>m_start = 5, m_end = 29, m_group1 = row_plain\<rparr>] \<and>
   parse_agent_output sample_bare_hashes = Inr [] \<and>
   section_header_finditer 0 True sample_one_region =
     [\<lparr>m_start = 0, m_end = 4, m_group1 = of_ascii ''A''\<rparr>] \<and>
   parse_agent_output sample_one_region = Inr [payload_region_a]"
  by code_simp

text \<open>
  C9: the payloads come in the order of the sections of the input, and the
  \<^verbatim>\<open>region_name\<close> of every payload is the cleaned heading text of the section its row
  came from. The order holds, match after match. The region name is that of the match of
  the heading pattern before the row, and a match need not be a heading line: the slip of
  C8 makes the line \<^verbatim>\<open>##\<close> take the line after it for its text. In the report below the
  first data row stands under the heading \<^verbatim>\<open>## A\<close>, the only heading line before it, and
  its payload has the stray table line \<^verbatim>\<open>| x |\<close> as region name.
\<close>

theorem region_name_of_swallowed_line:
  "section_header_finditer 0 True sample_swallowed_heading =
     [\<lparr>m_start = 0, m_end = 4, m_group1 = of_ascii ''A''\<rparr>,
      \<lparr>m_start = 5, m_end = 13, m_group1 = row_stray\<rparr>,
      \<lparr>m_start = 36, m_end = 40, m_group1 = of_ascii ''B''\<rparr>] \<and>
   parse_agent_output sample_swallowed_heading =
     Inr [payload_stray_region, payload_second_region] \<and>
   title (case_of payload_stray_region) = of_ascii ''T'' \<and>
   region_name (case_of payload_stray_region) = of_ascii ''| x |'' \<and>
   region_name (case_of payload_second_region) = of_ascii ''B''"
  by code_simp

text \<open>
  C10: a table line whose text contains \<^verbatim>\<open>"---"\<close> anywhere, inside a cell as well as in a
  separator row, is not among the data lines of its table, whichever way the columns were
  resolved; and every payload of the output comes from a data line that does not contain
  it.
\<close>

theorem dashed_line_never_a_data_row:
  "(locate_table tls = Inr (rcols, rdls) \<longrightarrow> contains (of_ascii ''---'') ln \<longrightarrow> ln \<notin> set rdls) \<and>
   (parse_agent_output t = Inr ps \<longrightarrow> p \<in> set ps \<longrightarrow>
      (\<exists>j e cols dls line.
           j < length (section_header_finditer 0 True t) \<and>
           section_end t (section_header_finditer 0 True t) (int j) = Inr e \<and>
           locate_table (table_lines_of
               (py_slice t (m_end (section_header_finditer 0 True t ! j)) e)) = Inr (cols, dls) \<and>
           line \<in> set dls \<and> \<not> contains (of_ascii ''---'') line \<and>
           row_payload (clean_region_name (py_strip (m_group1 (section_header_finditer 0 True t ! j))))
             cols line = Inr (Some p)))"
proof (intro conjI impI)
  assume "locate_table tls = Inr (rcols, rdls)" and c: "contains (of_ascii ''---'') ln"
  show "ln \<notin> set rdls"
  proof
    assume "ln \<in> set rdls"
    from locate_table_data_lines[OF \<open>locate_table tls = Inr (rcols, rdls)\<close> this]
    have "is_data_line ln" by simp
    with c show False by (simp add: is_data_line_def)
  qed
next
  assume a: "parse_agent_output t = Inr ps" and b: "p \<in> set ps"
  from parse_provenance[OF a b] obtain j e cols dls line where
    prov: "j < length (section_header_finditer 0 True t)"
      "section_end t (section_header_finditer 0 True t) (int j) = Inr e"
      "locate_table (table_lines_of
               (py_slice t (m_end (section_header_finditer 0 True t ! j)) e)) = Inr (cols, dls)"
      "line \<in> set dls"
      "row_payload (clean_region_name (py_strip (m_group1 (section_header_finditer 0 True t ! j))))
             cols line = Inr (Some p)"
    by blast
  from locate_table_data_lines[OF prov(3) prov(4)] have "\<not> contains (of_ascii ''---'') line"
    by (simp add: is_data_line_def)
  with prov show "\<exists>j e cols dls line.
           j < length (section_header_finditer 0 True t) \<and>
           section_end t (section_header_finditer 0 True t) (int j) = Inr e \<and>
           locate_table (table_lines_of
               (py_slice t (m_end (section_header_finditer 0 True t ! j)) e)) = Inr (cols, dls) \<and>
           line \<in> set dls \<and> \<not> contains (of_ascii ''---'') line \<and>
           row_payload (clean_region_name (py_strip (m_group1 (section_header_finditer 0 True t ! j))))
             cols line = Inr (Some p)" by blast
qed

theorem dashed_line_never_a_data_row_witness:
  "locate_table [row_plain, row_dashes] = Inr (positional_columns, [row_plain]) \<and>
   contains (of_ascii ''---'') row_dashes \<and> row_dashes \<notin> set [row_plain] \<and>
   parse_agent_output sample_two_regions = Inr [payload_region_a, payload_region_b] \<and>
   (\<exists>j e cols dls line.
           j < length (section_header_finditer 0 True sample_two_regions) \<and>
           section_end sample_two_regions (section_header_finditer 0 True sample_two_regions) (int j) = Inr e \<and>
           locate_table (table_lines_of
               (py_slice sample_two_regions (m_end (section_header_finditer 0 True sample_two_regions ! j)) e)) = Inr (cols, dls) \<and>
           line \<in> set dls \<and> \<not> contains (of_ascii ''---'') line \<and>
           row_payload (clean_region_name (py_strip (m_group1 (section_header_finditer 0 True sample_two_regions ! j))))
             cols line = Inr (Some payload_region_a))"
proof -
  have a: "locate_table [row_plain, row_dashes] = Inr (positional_columns, [row_plain])"
    by code_simp
  have b: "contains (of_ascii ''---'') row_dashes" by code_simp
  have c: "parse_agent_output sample_two_regions = Inr [payload_region_a, payload_region_b]"
    by code_simp
  have d: "payload_region_a \<in> set [payload_region_a, payload_region_b]" by simp
  note inst = dashed_line_never_a_data_row[where tls = "[row_plain, row_dashes]" and rcols = positional_columns
      and rdls = "[row_plain]" and ln = row_dashes and t = sample_two_regions
      and ps = "[payload_region_a, payload_region_b]" and p = payload_region_a]
  from inst a b have "row_dashes \<notin> set [row_plain]" by blast
  moreover from inst c d have "(\<exists>j e cols dls line.
           j < length (section_header_finditer 0 True sample_two_regions) \<and>
           section_end sample_two_regions (section_header_finditer 0 True sample_two_regions) (int j) = Inr e \<and>
           locate_table (table_lines_of
               (py_slice sample_two_regions (m_end (section_header_finditer 0 True sample_two_regions ! j)) e)) = Inr (cols, dls) \<and>
           line \<in> set dls \<and> \<not> contains (of_ascii ''---'') line \<and>
           row_payload (clean_region_name (py_strip (m_group1 (section_header_finditer 0 True sample_two_regions ! j))))
             cols line = Inr (Some payload_region_a))" by blast
  ultimately show ?thesis using a b c by blast
qed

end
